theory Spec2Isabelle
  imports
    Complex_Main
    "HOL-Library.Product_Lexorder"
    "HOL-Library.List_Lexorder"
    "HOL-Library.Multiset"
begin

section \<open>Data model\<close>

text \<open>
  A Python \<open>str\<close> is a sequence of Unicode code points, so it is modelled as a list of
  natural numbers; \<open>str\<close> turns an ASCII literal into that form. A cell of a
  \<open>pandas.DataFrame\<close> is either missing (\<open>NaN\<close>/\<open>None\<close>, here \<open>None\<close>) or
  holds a value, represented by the text \<open>str(value)\<close> gives. A frame has its column
  labels and its rows of cells; every row has one cell per column, and all functions
  below read cells through \<open>iat\<close> at positions inside the shape only.
\<close>

type_synonym pystr = "nat list"

definition str :: "string \<Rightarrow> pystr" where
  "str s = map of_char s"

type_synonym cell = "pystr option"

record dataframe =
  columns :: "pystr list"
  cells :: "cell list list"

datatype error = ZeroDivisionError | ValueError | IndexError | TypeError

definition shape0 :: "dataframe \<Rightarrow> nat" where
  "shape0 df = length (cells df)"

definition shape1 :: "dataframe \<Rightarrow> nat" where
  "shape1 df = length (columns df)"

definition iat :: "dataframe \<Rightarrow> nat \<Rightarrow> nat \<Rightarrow> cell" where
  "iat df r c = cells df ! r ! c"

section \<open>Whitespace and decimal digits\<close>

text \<open>
  \<open>str.strip()\<close> removes the leading and trailing characters for which
  \<open>str.isspace()\<close> holds: the code points of Unicode general category \<open>Zs\<close> or
  of bidirectional class \<open>WS\<close>, \<open>B\<close> or \<open>S\<close>.
\<close>

definition isspace :: "nat \<Rightarrow> bool" where
  "isspace c \<longleftrightarrow>
     (0x09 \<le> c \<and> c \<le> 0x0D) \<or> (0x1C \<le> c \<and> c \<le> 0x20) \<or> c = 0x85 \<or> c = 0xA0 \<or>
     c = 0x1680 \<or> (0x2000 \<le> c \<and> c \<le> 0x200A) \<or> c = 0x2028 \<or> c = 0x2029 \<or>
     c = 0x202F \<or> c = 0x205F \<or> c = 0x3000"

definition strip :: "pystr \<Rightarrow> pystr" where
  "strip s = dropWhile isspace (rev (dropWhile isspace (rev s)))"

text \<open>
  In a \<open>str\<close> pattern \<open>\d\<close> matches every code point of general category \<open>Nd\<close> and
  \<open>\s\<close> every code point that \<open>str.isspace\<close> accepts. The decimal digits come in runs
  of ten, listed here by their zero (Unicode 14.0, the table of CPython 3.11).
\<close>

definition decimal_zeros :: "nat list" where
  "decimal_zeros =
    [0x30, 0x660, 0x6F0, 0x7C0, 0x966, 0x9E6, 0xA66, 0xAE6, 0xB66, 0xBE6, 0xC66, 0xCE6,
     0xD66, 0xDE6, 0xE50, 0xED0, 0xF20, 0x1040, 0x1090, 0x17E0, 0x1810, 0x1946, 0x19D0,
     0x1A80, 0x1A90, 0x1B50, 0x1BB0, 0x1C40, 0x1C50, 0xA620, 0xA8D0, 0xA900, 0xA9D0,
     0xA9F0, 0xAA50, 0xABF0, 0xFF10, 0x104A0, 0x10D30, 0x11066, 0x110F0, 0x11136,
     0x111D0, 0x112F0, 0x11450, 0x114D0, 0x11650, 0x116C0, 0x11730, 0x118E0, 0x11950,
     0x11C50, 0x11D50, 0x11DA0, 0x16A60, 0x16AC0, 0x16B50, 0x1D7CE, 0x1D7D8, 0x1D7E2,
     0x1D7EC, 0x1D7F6, 0x1E140, 0x1E2F0, 0x1E950, 0x1FBF0]"

definition isdecimal :: "nat \<Rightarrow> bool" where
  "isdecimal c \<longleftrightarrow> list_ex (\<lambda>z. z \<le> c \<and> c < z + 10) decimal_zeros"

section \<open>Structural anchors (structural\_anchors\_demo.py)\<close>

text \<open>\<open>fillna('').astype(str)\<close> on one cell: a missing cell becomes the empty string.\<close>

definition fillna_str :: "cell \<Rightarrow> pystr" where
  "fillna_str v = (case v of None \<Rightarrow> [] | Some s \<Rightarrow> s)"

definition iloc_row :: "dataframe \<Rightarrow> nat \<Rightarrow> pystr list" where
  "iloc_row df i = map (\<lambda>j. fillna_str (iat df i j)) [0..<shape1 df]"

definition iloc_col :: "dataframe \<Rightarrow> nat \<Rightarrow> pystr list" where
  "iloc_col df j = map (\<lambda>i. fillna_str (iat df i j)) [0..<shape0 df]"

text \<open>\<open>sum(1 for a, b in zip(row1, row2) if a == b)\<close>\<close>

definition count_matches :: "pystr list \<Rightarrow> pystr list \<Rightarrow> nat" where
  "count_matches xs ys = length (filter (\<lambda>(a, b). a = b) (zip xs ys))"

definition similarity_threshold :: real where
  "similarity_threshold = 8 / 10"

text \<open>
  \<open>matches / len(row1) >= similarity_threshold\<close>. The division raises
  \<open>ZeroDivisionError\<close> on an empty line. The quotient is taken in the reals: the
  comparison of the two doubles agrees with it as long as a line has fewer than
  \<open>10^15\<close> positions.
\<close>

definition lines_similar :: "pystr list \<Rightarrow> pystr list \<Rightarrow> error + bool" where
  "lines_similar l1 l2 =
     (let matches = count_matches l1 l2 in
      if length l1 = 0 then Inl ZeroDivisionError
      else Inr (real matches / real (length l1) \<ge> similarity_threshold))"

definition rows_are_similar :: "dataframe \<Rightarrow> nat \<Rightarrow> nat \<Rightarrow> error + bool" where
  "rows_are_similar df row1_idx row2_idx =
     lines_similar (iloc_row df row1_idx) (iloc_row df row2_idx)"

definition cols_are_similar :: "dataframe \<Rightarrow> nat \<Rightarrow> nat \<Rightarrow> error + bool" where
  "cols_are_similar df col1_idx col2_idx =
     lines_similar (iloc_col df col1_idx) (iloc_col df col2_idx)"

text \<open>The body of the row loop: \<open>is_boundary\<close> for row \<open>i\<close>.\<close>

definition row_is_boundary :: "dataframe \<Rightarrow> nat \<Rightarrow> error + bool" where
  "row_is_boundary df i =
     (if i = 0 \<or> int i = int (shape0 df) - 1 then Inr True
      else case rows_are_similar df (i - 1) i of
        Inl e \<Rightarrow> Inl e
      | Inr prev_similar \<Rightarrow>
          (case (if i + 1 < shape0 df then rows_are_similar df i (i + 1) else Inr False) of
             Inl e \<Rightarrow> Inl e
           | Inr next_similar \<Rightarrow> Inr (\<not> prev_similar \<and> \<not> next_similar)))"

text \<open>The body of the column loop: \<open>is_boundary\<close> for column \<open>j\<close>.\<close>

definition col_is_boundary :: "dataframe \<Rightarrow> nat \<Rightarrow> error + bool" where
  "col_is_boundary df j =
     (if j = 0 \<or> int j = int (shape1 df) - 1 then Inr True
      else case cols_are_similar df (j - 1) j of
        Inl e \<Rightarrow> Inl e
      | Inr prev_similar \<Rightarrow>
          (case (if j + 1 < shape1 df then cols_are_similar df j (j + 1) else Inr False) of
             Inl e \<Rightarrow> Inl e
           | Inr next_similar \<Rightarrow> Inr (\<not> prev_similar \<or> \<not> next_similar)))"

text \<open>
  The loop \<open>for i in range(n): ... if is_boundary: anchors.add(i)\<close>, stopping at the
  first exception.
\<close>

fun collect_anchors :: "(nat \<Rightarrow> error + bool) \<Rightarrow> nat list \<Rightarrow> nat set \<Rightarrow> error + nat set" where
  "collect_anchors f [] anchors = Inr anchors"
| "collect_anchors f (i # rest) anchors =
     (case f i of
        Inl e \<Rightarrow> Inl e
      | Inr is_boundary \<Rightarrow>
          collect_anchors f rest (if is_boundary then insert i anchors else anchors))"

definition row_anchors :: "dataframe \<Rightarrow> error + nat set" where
  "row_anchors df = collect_anchors (row_is_boundary df) [0..<shape0 df] {}"

definition col_anchors :: "dataframe \<Rightarrow> error + nat set" where
  "col_anchors df = collect_anchors (col_is_boundary df) [0..<shape1 df] {}"

text \<open>
  \<open>for r in anchors: keep.update(range(max(0, r - k), min(n, r + k + 1)))\<close>, with
  Python's unbounded integers.
\<close>

definition expand_anchors :: "nat \<Rightarrow> int \<Rightarrow> nat set \<Rightarrow> int set" where
  "expand_anchors n k anchors =
     (\<Union>r\<in>anchors. {max 0 (int r - k) ..< min (int n) (int r + k + 1)})"

text \<open>
  The two local sets \<open>rows_to_keep\<close> and \<open>cols_to_keep\<close>, reached only when both anchor
  loops have ended without an exception.
\<close>

definition skeleton_indices :: "dataframe \<Rightarrow> int \<Rightarrow> error + (int set \<times> int set)" where
  "skeleton_indices df k =
     (case row_anchors df of
        Inl e \<Rightarrow> Inl e
      | Inr ra \<Rightarrow>
          (case col_anchors df of
             Inl e \<Rightarrow> Inl e
           | Inr ca \<Rightarrow> Inr (expand_anchors (shape0 df) k ra, expand_anchors (shape1 df) k ca)))"

text \<open>
  \<open>df.iloc[rows, cols]\<close> with two lists of positions: a position outside
  \<open>[-n, n)\<close> raises \<open>IndexError\<close>, a negative one counts from the end.
\<close>

definition iloc_pos :: "nat \<Rightarrow> int \<Rightarrow> nat" where
  "iloc_pos n p = nat (if p < 0 then p + int n else p)"

definition iloc :: "dataframe \<Rightarrow> int list \<Rightarrow> int list \<Rightarrow> error + dataframe" where
  "iloc df rs cs =
     (if list_all (\<lambda>p. - int (shape0 df) \<le> p \<and> p < int (shape0 df)) rs \<and>
         list_all (\<lambda>p. - int (shape1 df) \<le> p \<and> p < int (shape1 df)) cs
      then Inr \<lparr> columns = map (\<lambda>c. columns df ! iloc_pos (shape1 df) c) cs,
                 cells = map (\<lambda>r. map (\<lambda>c. iat df (iloc_pos (shape0 df) r) (iloc_pos (shape1 df) c)) cs) rs \<rparr>
      else Inl IndexError)"

definition extract_structural_skeleton :: "dataframe \<Rightarrow> int \<Rightarrow> error + dataframe" where
  "extract_structural_skeleton df k =
     (case skeleton_indices df k of
        Inl e \<Rightarrow> Inl e
      | Inr (rows_to_keep, cols_to_keep) \<Rightarrow>
          iloc df (sorted_list_of_set rows_to_keep) (sorted_list_of_set cols_to_keep))"

section \<open>Example frames and the similarity predicate of the specification\<close>

text \<open>
  The specification words line similarity over whitespace-trimmed values: the fraction of
  positions at which the trimmed values (a missing one taken as the empty string) are equal
  reaches 0.8. This predicate follows those words; \<open>lines_similar\<close> above is the code.
\<close>

definition claimed_lines_similar :: "cell list \<Rightarrow> cell list \<Rightarrow> bool" where
  "claimed_lines_similar l1 l2 \<longleftrightarrow>
     real (length (filter (\<lambda>(a, b). strip (fillna_str a) = strip (fillna_str b)) (zip l1 l2)))
       / real (length l1) \<ge> 8 / 10"

definition trim_example :: dataframe where
  "trim_example = \<lparr> columns = [str ''A''],
      cells = [[Some (str ''a'')], [Some (str ''a '')], [Some (str ''b'')]] \<rparr>"

definition rule_example :: dataframe where
  "rule_example = \<lparr> columns = [str ''A'', str ''B'', str ''C''],
      cells = [[Some (str ''a''), Some (str ''a''), Some (str ''b'')],
               [Some (str ''a''), Some (str ''a''), Some (str ''b'')],
               [Some (str ''c''), Some (str ''c''), Some (str ''d'')]] \<rparr>"

section \<open>Cell classifier (data\_format\_aggregation\_demo.py)\<close>

text \<open>
  The patterns of \<open>recognize_data_type\<close> are regular expressions without
  back-references, each of the form \<open>^...$\<close> and tried with \<open>re.match\<close>. They are
  kept as data: a character class is a predicate on code points. Whether such a pattern
  matches is decided by derivatives; \<open>alt\<close> and \<open>seq\<close> drop the branches that can no
  longer match.
\<close>

datatype regex =
    Null
  | Eps
  | Sym "nat \<Rightarrow> bool"
  | Alt regex regex
  | Seq regex regex
  | Star regex

fun nullable :: "regex \<Rightarrow> bool" where
  "nullable Null = False"
| "nullable Eps = True"
| "nullable (Sym p) = False"
| "nullable (Alt r s) = (nullable r \<or> nullable s)"
| "nullable (Seq r s) = (nullable r \<and> nullable s)"
| "nullable (Star r) = True"

fun alt :: "regex \<Rightarrow> regex \<Rightarrow> regex" where
  "alt Null s = s"
| "alt r Null = r"
| "alt r s = Alt r s"

fun seq :: "regex \<Rightarrow> regex \<Rightarrow> regex" where
  "seq Null s = Null"
| "seq r Null = Null"
| "seq Eps s = s"
| "seq r s = Seq r s"

fun deriv :: "nat \<Rightarrow> regex \<Rightarrow> regex" where
  "deriv c Null = Null"
| "deriv c Eps = Null"
| "deriv c (Sym p) = (if p c then Eps else Null)"
| "deriv c (Alt r s) = alt (deriv c r) (deriv c s)"
| "deriv c (Seq r s) =
     (if nullable r then alt (seq (deriv c r) s) (deriv c s) else seq (deriv c r) s)"
| "deriv c (Star r) = seq (deriv c r) (Star r)"

fun matches :: "regex \<Rightarrow> pystr \<Rightarrow> bool" where
  "matches r [] = nullable r"
| "matches r (c # cs) = matches (deriv c r) cs"

text \<open>
  \<open>re.match(r'^...$', s)\<close>: without \<open>re.MULTILINE\<close> the anchor \<open>$\<close> holds at the end
  of the string and also just before a newline that ends the string.
\<close>

definition re_match :: "regex \<Rightarrow> pystr \<Rightarrow> bool" where
  "re_match r s \<longleftrightarrow> matches r s \<or> (s \<noteq> [] \<and> last s = 0x0A \<and> matches r (butlast s))"

text \<open>
  The pattern constructs in use: a literal character, a letter under \<open>re.IGNORECASE\<close>
  (given with its other case), a literal string, \<open>r?\<close>, \<open>r+\<close>, \<open>r{n}\<close>, \<open>r{m,n}\<close> and
  \<open>r{n,}\<close>.
\<close>

definition chr :: "char \<Rightarrow> regex" where
  "chr c = Sym (\<lambda>x. x = of_char c)"

definition ichr :: "char \<Rightarrow> char \<Rightarrow> regex" where
  "ichr a b = Sym (\<lambda>x. x = of_char a \<or> x = of_char b)"

definition lit :: "string \<Rightarrow> regex" where
  "lit s = foldr (\<lambda>c r. Seq (chr c) r) s Eps"

definition optional :: "regex \<Rightarrow> regex" where
  "optional r = Alt r Eps"

definition one_or_more :: "regex \<Rightarrow> regex" where
  "one_or_more r = Seq r (Star r)"

fun repeat :: "nat \<Rightarrow> regex \<Rightarrow> regex" where
  "repeat 0 r = Eps"
| "repeat (Suc n) r = Seq r (repeat n r)"

definition repeat_range :: "nat \<Rightarrow> nat \<Rightarrow> regex \<Rightarrow> regex" where
  "repeat_range m n r = Seq (repeat m r) (repeat (n - m) (optional r))"

definition at_least :: "nat \<Rightarrow> regex \<Rightarrow> regex" where
  "at_least n r = Seq (repeat n r) (Star r)"

definition in_range :: "char \<Rightarrow> char \<Rightarrow> nat \<Rightarrow> bool" where
  "in_range a b c \<longleftrightarrow> of_char a \<le> c \<and> c \<le> of_char b"

definition one_of :: "string \<Rightarrow> nat \<Rightarrow> bool" where
  "one_of s c \<longleftrightarrow> c \<in> set (map of_char s)"

definition digit :: regex where
  "digit = Sym isdecimal"

definition space :: regex where
  "space = Sym isspace"

text \<open>
  The patterns, in the order of the source:
  \<^verbatim>\<open>^(19|20|21)\d{2}$\<close>,
  \<^verbatim>\<open>^[a-zA-Z0-9._%+-]+@[a-zA-Z0-9.-]+\.[a-zA-Z]{2,}$\<close>,
  \<^verbatim>\<open>^-?\d+\.?\d*%$\<close>,
  the currency pattern (one of the five currency signs U+0024, U+00A3, U+20AC, U+00A5,
  U+20B9, then \<^verbatim>\<open>\s*-?\d{1,3}(,\d{3})*(\.\d{2})?$\<close>),
  \<^verbatim>\<open>^-?\d+\.?\d*[eE][+-]?\d+$\<close>,
  the three date patterns
  \<^verbatim>\<open>^\d{4}[-/]\d{1,2}[-/]\d{1,2}$\<close>,
  \<^verbatim>\<open>^\d{1,2}[-/]\d{1,2}[-/]\d{4}$\<close>,
  \<^verbatim>\<open>^\d{1,2}[-/]\d{1,2}[-/]\d{2}$\<close>,
  \<^verbatim>\<open>^\d{1,2}:\d{2}(:\d{2})?(\s*(AM|PM))?$\<close> with \<open>re.IGNORECASE\<close>,
  \<^verbatim>\<open>^-?\d+\.\d+$\<close> and
  \<^verbatim>\<open>^-?\d+$\<close>.
\<close>

definition year_re :: regex where
  "year_re = Seq (Alt (lit ''19'') (Alt (lit ''20'') (lit ''21''))) (repeat 2 digit)"

definition email_re :: regex where
  "email_re =
     Seq (one_or_more (Sym (\<lambda>c. in_range CHR ''a'' CHR ''z'' c \<or> in_range CHR ''A'' CHR ''Z'' c \<or>
                          in_range CHR ''0'' CHR ''9'' c \<or> one_of ''._%+-'' c)))
    (Seq (chr CHR ''@'')
    (Seq (one_or_more (Sym (\<lambda>c. in_range CHR ''a'' CHR ''z'' c \<or> in_range CHR ''A'' CHR ''Z'' c \<or>
                          in_range CHR ''0'' CHR ''9'' c \<or> one_of ''.-'' c)))
    (Seq (chr CHR ''.'')
         (at_least 2 (Sym (\<lambda>c. in_range CHR ''a'' CHR ''z'' c \<or> in_range CHR ''A'' CHR ''Z'' c))))))"

definition percentage_re :: regex where
  "percentage_re =
     Seq (optional (chr CHR ''-''))
    (Seq (one_or_more digit) (Seq (optional (chr CHR ''.'')) (Seq (Star digit) (chr CHR ''%''))))"

definition currency_re :: regex where
  "currency_re =
     Seq (Sym (\<lambda>c. c = 0x24 \<or> c = 0xA3 \<or> c = 0x20AC \<or> c = 0xA5 \<or> c = 0x20B9))
    (Seq (Star space)
    (Seq (optional (chr CHR ''-''))
    (Seq (repeat_range 1 3 digit)
    (Seq (Star (Seq (chr CHR '','') (repeat 3 digit)))
         (optional (Seq (chr CHR ''.'') (repeat 2 digit)))))))"

definition scientific_re :: regex where
  "scientific_re =
     Seq (optional (chr CHR ''-''))
    (Seq (one_or_more digit)
    (Seq (optional (chr CHR ''.''))
    (Seq (Star digit)
    (Seq (Sym (one_of ''eE''))
    (Seq (optional (Sym (one_of ''+-''))) (one_or_more digit))))))"

definition date_patterns :: "regex list" where
  "date_patterns =
     [Seq (repeat 4 digit) (Seq (Sym (one_of ''-/'')) (Seq (repeat_range 1 2 digit)
        (Seq (Sym (one_of ''-/'')) (repeat_range 1 2 digit)))),
      Seq (repeat_range 1 2 digit) (Seq (Sym (one_of ''-/'')) (Seq (repeat_range 1 2 digit)
        (Seq (Sym (one_of ''-/'')) (repeat 4 digit)))),
      Seq (repeat_range 1 2 digit) (Seq (Sym (one_of ''-/'')) (Seq (repeat_range 1 2 digit)
        (Seq (Sym (one_of ''-/'')) (repeat 2 digit))))]"

definition time_re :: regex where
  "time_re =
     Seq (repeat_range 1 2 digit)
    (Seq (chr CHR '':'')
    (Seq (repeat 2 digit)
    (Seq (optional (Seq (chr CHR '':'') (repeat 2 digit)))
         (optional (Seq (Star space)
            (Alt (Seq (ichr CHR ''A'' CHR ''a'') (ichr CHR ''M'' CHR ''m''))
                 (Seq (ichr CHR ''P'' CHR ''p'') (ichr CHR ''M'' CHR ''m''))))))))"

definition float_re :: regex where
  "float_re =
     Seq (optional (chr CHR ''-'')) (Seq (one_or_more digit) (Seq (chr CHR ''.'') (one_or_more digit)))"

definition integer_re :: regex where
  "integer_re = Seq (optional (chr CHR ''-'')) (one_or_more digit)"

text \<open>
  \<open>recognize_data_type(value)\<close>: \<open>pd.isna(value) or str(value).strip() == ''\<close> gives
  \<open>'Empty'\<close>; otherwise the patterns are tried on \<open>str(value).strip()\<close> and the first
  that matches gives the label; \<open>'Others'\<close> when none does.
\<close>

definition recognize_data_type :: "cell \<Rightarrow> pystr" where
  "recognize_data_type v =
     (case v of
        None \<Rightarrow> str ''Empty''
      | Some s \<Rightarrow>
          if strip s = [] then str ''Empty''
          else let value_str = strip s in
            if re_match year_re value_str then str ''Year''
            else if re_match email_re value_str then str ''Email''
            else if re_match percentage_re value_str then str ''Percentage''
            else if re_match currency_re value_str then str ''Currency''
            else if re_match scientific_re value_str then str ''ScientificNotation''
            else if list_ex (\<lambda>pattern. re_match pattern value_str) date_patterns then str ''Date''
            else if re_match time_re value_str then str ''Time''
            else if re_match float_re value_str then str ''Float''
            else if re_match integer_re value_str then str ''Integer''
            else str ''Others'')"

text \<open>
  The specification words the classifier as a table of rules in a fixed order, of which
  the first that matches wins. \<open>first_matching_rule\<close> follows those words over the
  patterns above.
\<close>

definition rule_order :: "(regex list \<times> pystr) list" where
  "rule_order =
     [([year_re], str ''Year''), ([email_re], str ''Email''),
      ([percentage_re], str ''Percentage''), ([currency_re], str ''Currency''),
      ([scientific_re], str ''ScientificNotation''), (date_patterns, str ''Date''),
      ([time_re], str ''Time''), ([float_re], str ''Float''), ([integer_re], str ''Integer'')]"

definition first_matching_rule :: "pystr \<Rightarrow> pystr" where
  "first_matching_rule s =
     (case find (\<lambda>(patterns, label). list_ex (\<lambda>p. re_match p s) patterns) rule_order of
        Some (patterns, label) \<Rightarrow> label
      | None \<Rightarrow> str ''Others'')"

text \<open>
  The body of the loop of \<open>aggregate_by_data_format\<close> for one cell: the key of the group
  the cell joins and the entry appended to it. A cell whose label is not in the list of
  well-defined formats is grouped under its quoted text and recorded with type
  \<open>'Text'\<close>.
\<close>

record group_entry =
  address :: pystr
  cell_value :: cell
  cell_type :: pystr

definition well_defined_formats :: "pystr list" where
  "well_defined_formats =
     map str [''Year'', ''Integer'', ''Float'', ''Percentage'', ''ScientificNotation'',
              ''Date'', ''Time'', ''Currency'', ''Email'', ''Empty'']"

definition aggregate_cell :: "pystr \<Rightarrow> cell \<Rightarrow> pystr \<times> group_entry" where
  "aggregate_cell cell_addr v =
     (let data_type = recognize_data_type v in
      if data_type \<in> set well_defined_formats
      then (data_type, \<lparr> address = cell_addr, cell_value = v, cell_type = data_type \<rparr>)
      else ([0x22] @ fillna_str v @ [0x22],
            \<lparr> address = cell_addr, cell_value = v, cell_type = str ''Text'' \<rparr>))"

section \<open>Inverted index (inverted\_index\_demo.py)\<close>

subsection \<open>Integers and their text\<close>

text \<open>
  \<open>str(n)\<close> of a non-negative integer, as the f-string of \<open>create_cell_address\<close>
  writes the row number: its decimal digits, without sign or leading zero.
\<close>

fun dec :: "nat \<Rightarrow> pystr" where
  "dec n = (if n < 10 then [0x30 + n] else dec (n div 10) @ [0x30 + n mod 10])"

declare dec.simps [simp del]

text \<open>
  \<open>int(s)\<close> of a \<open>str\<close>, in base 10. CPython first turns every code point above 127 that
  is white space into a blank and every one that is a decimal digit into its ASCII digit,
  then reads: ASCII white space (\<open>\t\n\v\f\r\<close> and the blank), an optional sign,
  digits with single underscores between them, white space, and the end. Anything else
  raises \<open>ValueError\<close>. (The limit that recent interpreters put on the number of digits
  is a setting of the interpreter and is not part of this model.)
\<close>

definition int_isspace :: "nat \<Rightarrow> bool" where
  "int_isspace c \<longleftrightarrow> (0x09 \<le> c \<and> c \<le> 0x0D) \<or> c = 0x20 \<or> (127 < c \<and> isspace c)"

definition digit_value :: "nat \<Rightarrow> nat option" where
  "digit_value c = map_option (\<lambda>z. c - z) (find (\<lambda>z. z \<le> c \<and> c < z + 10) decimal_zeros)"

fun int_digits :: "pystr \<Rightarrow> nat list option" where
  "int_digits [] = None"
| "int_digits (c # cs) =
     (case digit_value c of
        None \<Rightarrow> None
      | Some v \<Rightarrow>
          (case cs of
             [] \<Rightarrow> Some [v]
           | x # xs \<Rightarrow>
               if x = 0x5F then map_option (Cons v) (int_digits xs)
               else map_option (Cons v) (int_digits cs)))"

definition digits_value :: "nat list \<Rightarrow> nat" where
  "digits_value ds = foldl (\<lambda>a v. 10 * a + v) 0 ds"

definition py_int :: "pystr \<Rightarrow> error + int" where
  "py_int s =
     (let t = dropWhile int_isspace (rev (dropWhile int_isspace (rev s)));
          negative = (t \<noteq> [] \<and> hd t = 0x2D);
          body = (if t \<noteq> [] \<and> (hd t = 0x2D \<or> hd t = 0x2B) then tl t else t)
      in case int_digits body of
           None \<Rightarrow> Inl ValueError
         | Some ds \<Rightarrow> Inr (if negative then - int (digits_value ds) else int (digits_value ds)))"

subsection \<open>Addresses\<close>

text \<open>\<open>f'{df.columns[col]}{row + 1}'\<close>\<close>

definition create_cell_address :: "nat \<Rightarrow> nat \<Rightarrow> dataframe \<Rightarrow> pystr" where
  "create_cell_address row col df = columns df ! col @ dec (row + 1)"

subsection \<open>Merging addresses into ranges\<close>

text \<open>
  The first loop of \<open>merge_cell_ranges\<close>: \<open>col = addr[0]\<close> raises \<open>IndexError\<close> on an
  empty address, \<open>row = int(addr[1:])\<close> raises \<open>ValueError\<close>; the first address that
  fails ends the call.
\<close>

type_synonym parsed = "nat \<times> int \<times> pystr"

fun parse_addresses :: "pystr list \<Rightarrow> error + parsed list" where
  "parse_addresses [] = Inr []"
| "parse_addresses (addr # rest) =
     (case addr of
        [] \<Rightarrow> Inl IndexError
      | col # digits \<Rightarrow>
          (case py_int digits of
             Inl e \<Rightarrow> Inl e
           | Inr row \<Rightarrow>
               (case parse_addresses rest of
                  Inl e \<Rightarrow> Inl e
                | Inr ps \<Rightarrow> Inr ((col, row, addr) # ps))))"

text \<open>
  The variables of the sweep. \<open>None\<close> is Python's \<open>None\<close>; \<open>if current_range_start:\<close>
  holds for a string that is neither \<open>None\<close> nor empty.
\<close>

record sweep_state =
  ranges :: "pystr list"
  current_range_start :: "pystr option"
  current_range_end :: "pystr option"
  current_col :: "nat option"

definition truthy :: "pystr option \<Rightarrow> bool" where
  "truthy v \<longleftrightarrow> (case v of None \<Rightarrow> False | Some s \<Rightarrow> s \<noteq> [])"

text \<open>The text an f-string or \<open>append\<close> takes from such a variable.\<close>

definition format_value :: "pystr option \<Rightarrow> pystr" where
  "format_value v = (case v of None \<Rightarrow> str ''None'' | Some s \<Rightarrow> s)"

text \<open>
  The text of the open range, \<open>start if start == end else f"{start}:{end}"\<close>, and
  \<open>ranges\<close> after it has been appended. Both places that append have a string for
  \<open>current_range_start\<close> or for \<open>current_range_end\<close>, so the text of \<open>None\<close> is only
  ever taken inside the f-string.
\<close>

definition range_text :: "sweep_state \<Rightarrow> pystr" where
  "range_text st =
     (if current_range_start st = current_range_end st
      then format_value (current_range_start st)
      else format_value (current_range_start st) @ [0x3A] @ format_value (current_range_end st))"

definition append_range :: "sweep_state \<Rightarrow> pystr list" where
  "append_range st = ranges st @ [range_text st]"

text \<open>
  The append under the guard \<open>if current_range_start:\<close>, as it stands where a new
  column begins and after the loop.
\<close>

definition finish_range :: "sweep_state \<Rightarrow> pystr list" where
  "finish_range st = (if truthy (current_range_start st) then append_range st else ranges st)"

text \<open>
  One turn of the loop \<open>for col, row, addr in parsed\<close>. In the branch of the same column
  \<open>prev_row = int(current_range_end[1:])\<close> is read again from the text of the address,
  and a row that does not continue the range appends the range without the guard.
\<close>

definition sweep_step :: "sweep_state \<Rightarrow> parsed \<Rightarrow> error + sweep_state" where
  "sweep_step st p =
     (case p of (col, row, addr) \<Rightarrow>
        if current_col st \<noteq> Some col
        then Inr \<lparr> ranges = finish_range st,
                   current_range_start = Some addr,
                   current_range_end = Some addr,
                   current_col = Some col \<rparr>
        else
          (case current_range_end st of
             None \<Rightarrow> Inl TypeError
           | Some e \<Rightarrow>
               (case py_int (tl e) of
                  Inl err \<Rightarrow> Inl err
                | Inr prev_row \<Rightarrow>
                    if row = prev_row + 1
                    then Inr (st \<lparr> current_range_end := Some addr \<rparr>)
                    else Inr \<lparr> ranges = append_range st,
                               current_range_start = Some addr,
                               current_range_end = Some addr,
                               current_col = current_col st \<rparr>)))"

fun sweep :: "sweep_state \<Rightarrow> parsed list \<Rightarrow> error + sweep_state" where
  "sweep st [] = Inr st"
| "sweep st (p # ps) =
     (case sweep_step st p of
        Inl e \<Rightarrow> Inl e
      | Inr st' \<Rightarrow> sweep st' ps)"

text \<open>\<open>','.join(ranges)\<close>\<close>

fun join :: "nat \<Rightarrow> pystr list \<Rightarrow> pystr" where
  "join sep [] = []"
| "join sep [x] = x"
| "join sep (x # y # rest) = x @ [sep] @ join sep (y # rest)"

text \<open>
  \<open>merge_cell_ranges(addresses)\<close>. \<open>parsed.sort()\<close> orders the tuples
  \<open>(col, row, addr)\<close> lexicographically, strings by code point.
\<close>

definition merge_cell_ranges :: "pystr list \<Rightarrow> error + pystr" where
  "merge_cell_ranges addresses =
     (if addresses = [] then Inr []
      else case parse_addresses addresses of
        Inl e \<Rightarrow> Inl e
      | Inr parsed \<Rightarrow>
          (case sweep \<lparr> ranges = [], current_range_start = None,
                        current_range_end = None, current_col = None \<rparr> (sort parsed) of
             Inl e \<Rightarrow> Inl e
           | Inr st \<Rightarrow> Inr (join 0x2C (finish_range st))))"

subsection \<open>Building the index\<close>

text \<open>
  The dictionaries \<open>index\<close> and \<open>result\<close> are association lists in the order in which
  their keys were first inserted. \<open>index[key].append(addr)\<close> on the
  \<open>defaultdict(list)\<close>:
\<close>

fun index_append :: "(pystr \<times> pystr list) list \<Rightarrow> pystr \<Rightarrow> pystr \<Rightarrow> (pystr \<times> pystr list) list" where
  "index_append [] key addr = [(key, [addr])]"
| "index_append ((k, addrs) # rest) key addr =
     (if k = key then (k, addrs @ [addr]) # rest
      else (k, addrs) # index_append rest key addr)"

text \<open>
  The body of the loop over \<open>itertools.product(range(df.shape[0]), range(df.shape[1]))\<close>:
  a cell counts when \<open>pd.notna(val) and str(val).strip() != ''\<close>.
\<close>

definition index_cell :: "dataframe \<Rightarrow> (pystr \<times> pystr list) list \<Rightarrow> nat \<times> nat \<Rightarrow> (pystr \<times> pystr list) list" where
  "index_cell df index p =
     (case p of (r, c) \<Rightarrow>
        (case iat df r c of
           None \<Rightarrow> index
         | Some val \<Rightarrow>
             if strip val \<noteq> [] then index_append index val (create_cell_address r c df)
             else index))"

definition build_index :: "dataframe \<Rightarrow> (pystr \<times> pystr list) list" where
  "build_index df = foldl (index_cell df) [] (List.product [0..<shape0 df] [0..<shape1 df])"

text \<open>The loop \<open>for val, addrs in index.items(): result[val] = merge_cell_ranges(addrs)\<close>.\<close>

fun merge_all :: "(pystr \<times> pystr list) list \<Rightarrow> error + (pystr \<times> pystr) list" where
  "merge_all [] = Inr []"
| "merge_all ((val, addrs) # rest) =
     (case merge_cell_ranges addrs of
        Inl e \<Rightarrow> Inl e
      | Inr merged \<Rightarrow>
          (case merge_all rest of
             Inl e \<Rightarrow> Inl e
           | Inr result \<Rightarrow> Inr ((val, merged) # result)))"

definition invert_index_with_ranges :: "dataframe \<Rightarrow> error + (pystr \<times> pystr) list" where
  "invert_index_with_ranges df = merge_all (build_index df)"

subsection \<open>Reading an index back\<close>

text \<open>
  The claims about the index speak of expanding its range descriptors back to
  coordinates. These functions do that from the text alone: the text of an entry is split
  at commas, a descriptor at the colon, an address is read the way \<open>merge_cell_ranges\<close>
  reads it (first character, then \<open>int\<close> of the rest), and \<open>X\<close>\<open>a\<close>\<open>:\<close>\<open>X\<close>\<open>b\<close> stands for the
  rows \<open>a..b\<close> of column \<open>X\<close>.
\<close>

fun split_on :: "nat \<Rightarrow> pystr \<Rightarrow> pystr list" where
  "split_on sep [] = [[]]"
| "split_on sep (c # cs) =
     (if c = sep then [] # split_on sep cs
      else (c # hd (split_on sep cs)) # tl (split_on sep cs))"

definition decode_address :: "pystr \<Rightarrow> (nat \<times> int) option" where
  "decode_address a =
     (case a of
        [] \<Rightarrow> None
      | col # digits \<Rightarrow> (case py_int digits of Inl e \<Rightarrow> None | Inr row \<Rightarrow> Some (col, row)))"

definition decode_range :: "pystr \<Rightarrow> (nat \<times> int) list option" where
  "decode_range d =
     (case split_on 0x3A d of
        [a] \<Rightarrow> map_option (\<lambda>p. [p]) (decode_address a)
      | [a, b] \<Rightarrow>
          (case (decode_address a, decode_address b) of
             (Some (c1, r1), Some (c2, r2)) \<Rightarrow>
               if c1 = c2 then Some (map (Pair c1) [r1..r2]) else None
           | _ \<Rightarrow> None)
      | _ \<Rightarrow> None)"

fun expand_list :: "pystr list \<Rightarrow> (nat \<times> int) list option" where
  "expand_list [] = Some []"
| "expand_list (d # ds) =
     (case decode_range d of
        None \<Rightarrow> None
      | Some cs \<Rightarrow> map_option (append cs) (expand_list ds))"

definition expand_ranges :: "pystr \<Rightarrow> (nat \<times> int) list option" where
  "expand_ranges s = (if s = [] then Some [] else expand_list (split_on 0x2C s))"

text \<open>
  An address of the index names the cell in the row before its row number and in the
  column that carries its first character as label.
\<close>

definition grid_coordinate :: "dataframe \<Rightarrow> nat \<times> int \<Rightarrow> nat \<times> nat" where
  "grid_coordinate df p =
     (case p of (col, row) \<Rightarrow> (nat (row - 1), length (takeWhile (\<lambda>l. l \<noteq> [col]) (columns df))))"

fun reconstruct :: "dataframe \<Rightarrow> (pystr \<times> pystr) list \<Rightarrow> ((nat \<times> nat) \<times> pystr) list option" where
  "reconstruct df [] = Some []"
| "reconstruct df ((val, merged) # rest) =
     (case expand_ranges merged of
        None \<Rightarrow> None
      | Some cs \<Rightarrow>
          map_option (append (map (\<lambda>p. (grid_coordinate df p, val)) cs)) (reconstruct df rest))"

text \<open>
  An address that \<open>merge_cell_ranges\<close> can read and that holds neither of the two
  separators of the output.
\<close>

definition addr_ok :: "pystr \<Rightarrow> bool" where
  "addr_ok a \<longleftrightarrow>
     a \<noteq> [] \<and> hd a \<noteq> 0x2C \<and> hd a \<noteq> 0x3A \<and>
     (case py_int (tl a) of Inl e \<Rightarrow> False | Inr row \<Rightarrow> True)"

definition address_coordinate :: "pystr \<Rightarrow> nat \<times> int" where
  "address_coordinate a = (hd a, projr (py_int (tl a)))"

text \<open>A column label of one character that is neither separator, as in \<open>A\<close>, \<open>B\<close>, ...\<close>

definition label_ok :: "pystr \<Rightarrow> bool" where
  "label_ok l \<longleftrightarrow> length l = 1 \<and> hd l \<noteq> 0x2C \<and> hd l \<noteq> 0x3A"

subsection \<open>Example inputs\<close>

definition index_example :: dataframe where
  "index_example = \<lparr> columns = [str ''A''],
      cells = [[Some (str ''Q1'')], [Some (str ''Q1'')], [Some (str ''Q2'')]] \<rparr>"

definition two_letter_example :: dataframe where
  "two_letter_example = \<lparr> columns = [str ''AB''], cells = [[Some (str ''x'')]] \<rparr>"

subsection \<open>The invariant of the sweep\<close>

text \<open>
  What the first loop makes of a readable address, and the state of the sweep after it has
  taken the coordinates \<open>seen\<close>: the ranges closed so far hold no comma and expand, in
  order, to a first part of \<open>seen\<close>; the open range runs in one column from the row of
  \<open>current_range_start\<close> to the row of \<open>current_range_end\<close> and gives the rest.
\<close>

definition parsed_of :: "pystr \<Rightarrow> parsed" where
  "parsed_of a = (hd a, snd (address_coordinate a), a)"

definition sweep_inv :: "sweep_state \<Rightarrow> (nat \<times> int) list \<Rightarrow> bool" where
  "sweep_inv st seen \<longleftrightarrow>
     list_all (\<lambda>d. 0x2C \<notin> set d) (ranges st) \<and>
     (case current_col st of
        None \<Rightarrow>
          current_range_start st = None \<and> current_range_end st = None \<and>
          ranges st = [] \<and> seen = []
      | Some c \<Rightarrow>
          (case (current_range_start st, current_range_end st) of
             (Some s, Some e) \<Rightarrow>
               addr_ok s \<and> addr_ok e \<and> hd s = c \<and> hd e = c \<and>
               (s = e \<or> snd (address_coordinate s) < snd (address_coordinate e)) \<and>
               (case expand_list (ranges st) of
                  None \<Rightarrow> False
                | Some cs \<Rightarrow>
                    seen = cs @ map (Pair c) [snd (address_coordinate s) .. snd (address_coordinate e)])
           | _ \<Rightarrow> False))"

subsection \<open>The contents of an index\<close>

text \<open>
  The pairs of value and address an index holds, and the pair one cell adds to it: none
  for a missing or blank cell.
\<close>

definition index_pairs :: "(pystr \<times> pystr list) list \<Rightarrow> (pystr \<times> pystr) list" where
  "index_pairs index = concat (map (\<lambda>(val, addrs). map (Pair val) addrs) index)"

definition cell_pairs :: "dataframe \<Rightarrow> nat \<times> nat \<Rightarrow> (pystr \<times> pystr) list" where
  "cell_pairs df p =
     (case p of (r, c) \<Rightarrow>
        (case iat df r c of
           None \<Rightarrow> []
         | Some val \<Rightarrow> if strip val \<noteq> [] then [(val, create_cell_address r c df)] else []))"

definition duplicate_label_example :: dataframe where
  "duplicate_label_example = \<lparr> columns = [str ''A'', str ''A''],
      cells = [[Some (str ''x''), Some (str ''x'')]] \<rparr>"

definition comma_label_example :: dataframe where
  "comma_label_example = \<lparr> columns = [str '',''], cells = [[Some (str ''x'')]] \<rparr>"

subsection \<open>Runs\<close>

text \<open>
  An address \<open>merge_cell_ranges\<close> can read: one character of column, then text that
  \<open>int\<close> accepts.
\<close>

definition readable :: "pystr \<Rightarrow> bool" where
  "readable a \<longleftrightarrow> a \<noteq> [] \<and> (case py_int (tl a) of Inl e \<Rightarrow> False | Inr row \<Rightarrow> True)"

text \<open>
  Address \<open>b\<close> lies in the column of \<open>a\<close>, one row further. A run is a list of addresses
  each adjacent to the one before it; its text is the address alone or \<open>first:last\<close>.
  A list of runs is maximal when no run is empty and no run could take the first address
  of the run that follows it.
\<close>

definition adjacent :: "pystr \<Rightarrow> pystr \<Rightarrow> bool" where
  "adjacent a b \<longleftrightarrow>
     fst (address_coordinate a) = fst (address_coordinate b) \<and>
     snd (address_coordinate b) = snd (address_coordinate a) + 1"

definition run_text :: "pystr list \<Rightarrow> pystr" where
  "run_text r = (if length r = 1 then hd r else hd r @ [0x3A] @ last r)"

definition maximal_runs :: "pystr list list \<Rightarrow> bool" where
  "maximal_runs runs \<longleftrightarrow>
     list_all (\<lambda>r. r \<noteq> [] \<and> successively adjacent r) runs \<and>
     successively (\<lambda>r1 r2. \<not> adjacent (last r1) (hd r2)) runs"

text \<open>The state of the sweep after the runs \<open>finished\<close>, with the run \<open>current\<close> still open.\<close>

definition runs_state :: "pystr list list \<Rightarrow> pystr list \<Rightarrow> sweep_state" where
  "runs_state finished current =
     \<lparr> ranges = map run_text finished, current_range_start = Some (hd current),
       current_range_end = Some (last current), current_col = Some (hd (last current)) \<rparr>"
section \<open>Properties of the structural anchors\<close>

lemma collect_anchors_Inr:
  assumes "\<And>i. i \<in> set xs \<Longrightarrow> f i = Inr (g i)"
  shows "collect_anchors f xs acc = Inr (acc \<union> {i \<in> set xs. g i})"
  using assms by (induction xs arbitrary: acc) auto

lemma collect_anchors_Inl:
  assumes "collect_anchors f xs acc = Inl e"
  shows "\<exists>i \<in> set xs. f i = Inl e"
  using assms by (induction xs arbitrary: acc) (auto split: sum.splits)

lemma lines_similar_Inr:
  "l1 \<noteq> [] \<Longrightarrow> lines_similar l1 l2 = Inr (4 * length l1 \<le> 5 * count_matches l1 l2)"
  unfolding lines_similar_def similarity_threshold_def Let_def
  by (auto simp: field_simps of_nat_mult[symmetric] simp del: of_nat_mult)

lemma lines_similar_Inl: "lines_similar l1 l2 = Inl e \<Longrightarrow> e = ZeroDivisionError"
  unfolding lines_similar_def Let_def by (auto split: if_splits)

lemma count_matches_map:
  "distinct xs \<Longrightarrow> count_matches (map f xs) (map g xs) = card {j \<in> set xs. f j = g j}"
proof (induction xs)
  case Nil then show ?case by (simp add: count_matches_def)
next
  case (Cons x xs)
  have *: "{j \<in> set (x # xs). f j = g j} = (if f x = g x then insert x {j \<in> set xs. f j = g j} else {j \<in> set xs. f j = g j})"
    by auto
  from Cons show ?case unfolding * by (auto simp: count_matches_def)
qed

lemma rows_are_similar_eq:
  assumes "0 < shape1 df"
  shows "rows_are_similar df a b =
     Inr (4 * shape1 df \<le> 5 * card {j. j < shape1 df \<and> fillna_str (iat df a j) = fillna_str (iat df b j)})"
proof -
  have "iloc_row df a \<noteq> []" using assms by (simp add: iloc_row_def)
  then show ?thesis
    unfolding rows_are_similar_def
    by (simp add: lines_similar_Inr) (simp add: iloc_row_def count_matches_map)
qed

lemma cols_are_similar_eq:
  assumes "0 < shape0 df"
  shows "cols_are_similar df a b =
     Inr (4 * shape0 df \<le> 5 * card {i. i < shape0 df \<and> fillna_str (iat df i a) = fillna_str (iat df i b)})"
proof -
  have "iloc_col df a \<noteq> []" using assms by (simp add: iloc_col_def)
  then show ?thesis
    unfolding cols_are_similar_def
    by (simp add: lines_similar_Inr) (simp add: iloc_col_def count_matches_map)
qed

lemma row_is_boundary_Inl: "row_is_boundary df i = Inl e \<Longrightarrow> e = ZeroDivisionError"
  unfolding row_is_boundary_def rows_are_similar_def
  by (auto split: if_splits sum.splits dest: lines_similar_Inl)

lemma col_is_boundary_Inl: "col_is_boundary df i = Inl e \<Longrightarrow> e = ZeroDivisionError"
  unfolding col_is_boundary_def cols_are_similar_def
  by (auto split: if_splits sum.splits dest: lines_similar_Inl)

lemma row_anchors_Inl: "row_anchors df = Inl e \<Longrightarrow> e = ZeroDivisionError"
  unfolding row_anchors_def by (blast dest: collect_anchors_Inl row_is_boundary_Inl)

lemma col_anchors_Inl: "col_anchors df = Inl e \<Longrightarrow> e = ZeroDivisionError"
  unfolding col_anchors_def by (blast dest: collect_anchors_Inl col_is_boundary_Inl)

lemma row_is_boundary_Inr:
  assumes "0 < shape1 df" "i < shape0 df"
  shows "row_is_boundary df i =
     Inr (i = 0 \<or> Suc i = shape0 df \<or>
          (rows_are_similar df (i - 1) i = Inr False \<and> rows_are_similar df i (i + 1) = Inr False))"
proof -
  have "Suc i < shape0 df" if "Suc i \<noteq> shape0 df" using that assms(2) by simp
  moreover have "int i = int (shape0 df) - 1 \<longleftrightarrow> Suc i = shape0 df" by auto
  ultimately show ?thesis
    unfolding row_is_boundary_def
    by (simp add: rows_are_similar_eq[OF assms(1)])
qed

lemma col_is_boundary_Inr:
  assumes "0 < shape0 df" "j < shape1 df"
  shows "col_is_boundary df j =
     Inr (j = 0 \<or> Suc j = shape1 df \<or>
          (cols_are_similar df (j - 1) j = Inr False \<or> cols_are_similar df j (j + 1) = Inr False))"
proof -
  have "Suc j < shape1 df" if "Suc j \<noteq> shape1 df" using that assms(2) by simp
  moreover have "int j = int (shape1 df) - 1 \<longleftrightarrow> Suc j = shape1 df" by auto
  ultimately show ?thesis
    unfolding col_is_boundary_def
    by (simp add: cols_are_similar_eq[OF assms(1)])
qed

lemma row_anchors_eq:
  assumes "0 < shape1 df"
  shows "row_anchors df = Inr {i. i < shape0 df \<and> (i = 0 \<or> Suc i = shape0 df \<or>
          (rows_are_similar df (i - 1) i = Inr False \<and> rows_are_similar df i (i + 1) = Inr False))}"
  unfolding row_anchors_def
  by (subst collect_anchors_Inr[where g = "\<lambda>i. i = 0 \<or> Suc i = shape0 df \<or>
          (rows_are_similar df (i - 1) i = Inr False \<and> rows_are_similar df i (i + 1) = Inr False)"])
     (auto simp: row_is_boundary_Inr[OF assms])

lemma col_anchors_eq:
  assumes "0 < shape0 df"
  shows "col_anchors df = Inr {j. j < shape1 df \<and> (j = 0 \<or> Suc j = shape1 df \<or>
          (cols_are_similar df (j - 1) j = Inr False \<or> cols_are_similar df j (j + 1) = Inr False))}"
  unfolding col_anchors_def
  by (subst collect_anchors_Inr[where g = "\<lambda>j. j = 0 \<or> Suc j = shape1 df \<or>
          (cols_are_similar df (j - 1) j = Inr False \<or> cols_are_similar df j (j + 1) = Inr False)"])
     (auto simp: col_is_boundary_Inr[OF assms])

lemma expand_anchors_mono: "k1 \<le> k2 \<Longrightarrow> expand_anchors n k1 A \<subseteq> expand_anchors n k2 A"
  unfolding expand_anchors_def by (fastforce)

lemma expand_anchors_neg: "k < 0 \<Longrightarrow> expand_anchors n k A = {}"
  unfolding expand_anchors_def by auto

lemma expand_anchors_bounds: "expand_anchors n k A \<subseteq> {0..<int n}"
  unfolding expand_anchors_def by auto

lemma expand_anchors_self: "0 \<le> k \<Longrightarrow> r \<in> A \<Longrightarrow> r < n \<Longrightarrow> int r \<in> expand_anchors n k A"
  unfolding expand_anchors_def by (auto intro!: bexI[of _ r])

lemma finite_expand_anchors: "finite (expand_anchors n k A)"
  using expand_anchors_bounds by (rule finite_subset) simp

lemma iloc_empty: "iloc df [] [] = Inr \<lparr> columns = [], cells = [] \<rparr>"
  by (simp add: iloc_def)

lemma iloc_in_range:
  assumes "set rs \<subseteq> {0..<int (shape0 df)}" "set cs \<subseteq> {0..<int (shape1 df)}"
  shows "\<exists>sk. iloc df rs cs = Inr sk \<and> shape0 sk = length rs \<and> shape1 sk = length cs"
proof -
  have "list_all (\<lambda>p. - int (shape0 df) \<le> p \<and> p < int (shape0 df)) rs"
    using assms(1) by (auto simp: list_all_iff)
  moreover have "list_all (\<lambda>p. - int (shape1 df) \<le> p \<and> p < int (shape1 df)) cs"
    using assms(2) by (auto simp: list_all_iff)
  ultimately show ?thesis by (simp add: iloc_def shape0_def shape1_def)
qed

lemma skeleton_indices_Inl: "skeleton_indices df k = Inl e \<Longrightarrow> e = ZeroDivisionError"
  unfolding skeleton_indices_def
  by (auto split: sum.splits dest: row_anchors_Inl col_anchors_Inl)

lemma skeleton_indices_Inr:
  assumes "0 < shape0 df" "0 < shape1 df"
  shows "\<exists>ra ca. row_anchors df = Inr ra \<and> col_anchors df = Inr ca \<and>
           skeleton_indices df k = Inr (expand_anchors (shape0 df) k ra, expand_anchors (shape1 df) k ca)"
  unfolding skeleton_indices_def
  by (simp add: row_anchors_eq[OF assms(2)] col_anchors_eq[OF assms(1)])

lemma anchor_ends:
  assumes "1 \<le> shape0 df" and "1 \<le> shape1 df"
  shows "\<exists>ra ca. row_anchors df = Inr ra \<and> col_anchors df = Inr ca \<and>
           0 \<in> ra \<and> shape0 df - 1 \<in> ra \<and> 0 \<in> ca \<and> shape1 df - 1 \<in> ca"
proof -
  have r: "0 < shape1 df" and c: "0 < shape0 df" using assms by simp_all
  show ?thesis
    unfolding row_anchors_eq[OF r] col_anchors_eq[OF c] using assms by auto
qed

lemmas anchor_eval =
  row_anchors_def col_anchors_def row_is_boundary_def col_is_boundary_def
  rows_are_similar_def cols_are_similar_def lines_similar_def count_matches_def
  similarity_threshold_def iloc_row_def iloc_col_def iat_def fillna_str_def
  shape0_def shape1_def str_def upt_rec[of _ "numeral _"] upt_rec[of 0 "Suc _"]

lemma trim_example_anchors: "row_anchors trim_example = Inr {0, 1, 2}"
  by (auto simp add: trim_example_def anchor_eval)

lemma rule_example_rows: "row_anchors rule_example = Inr {0, 2}"
  by (auto simp add: rule_example_def anchor_eval)

lemma rule_example_cols: "col_anchors rule_example = Inr {0, 1, 2}"
  by (auto simp add: rule_example_def anchor_eval)

lemma trim_example_cols: "col_anchors trim_example = Inr {0}"
  by (auto simp add: trim_example_def anchor_eval)

subsection \<open>The anchor rules\<close>

text \<open>
  Claim C3, as the code has it. On a frame with at least one row and one column both anchor
  loops end normally; an interior row \<open>i\<close> is an anchor iff it is similar neither to
  row \<open>i - 1\<close> nor to row \<open>i + 1\<close>; an interior column \<open>j\<close> is an anchor iff it is
  not similar to column \<open>j - 1\<close> or not similar to column \<open>j + 1\<close>; and two lines are
  similar iff the positions at which their values are equal as they stand (a missing value
  taken as the empty string, nothing trimmed) make up at least four fifths of the line.
\<close>

theorem anchor_rules:
  assumes "1 \<le> shape0 df" and "1 \<le> shape1 df"
  shows "\<exists>ra ca. row_anchors df = Inr ra \<and> col_anchors df = Inr ca \<and>
     (\<forall>i. 0 < i \<and> i + 1 < shape0 df \<longrightarrow>
        (i \<in> ra \<longleftrightarrow> rows_are_similar df (i - 1) i = Inr False \<and> rows_are_similar df i (i + 1) = Inr False)) \<and>
     (\<forall>j. 0 < j \<and> j + 1 < shape1 df \<longrightarrow>
        (j \<in> ca \<longleftrightarrow> cols_are_similar df (j - 1) j = Inr False \<or> cols_are_similar df j (j + 1) = Inr False)) \<and>
     (\<forall>a b. rows_are_similar df a b =
        Inr (4 * shape1 df \<le> 5 * card {j. j < shape1 df \<and> fillna_str (iat df a j) = fillna_str (iat df b j)})) \<and>
     (\<forall>a b. cols_are_similar df a b =
        Inr (4 * shape0 df \<le> 5 * card {i. i < shape0 df \<and> fillna_str (iat df i a) = fillna_str (iat df i b)}))"
proof -
  have r: "0 < shape1 df" and c: "0 < shape0 df" using assms by simp_all
  show ?thesis
    unfolding row_anchors_eq[OF r] col_anchors_eq[OF c]
    using rows_are_similar_eq[OF r] cols_are_similar_eq[OF c] by auto
qed

theorem anchor_rules_witness:
  "1 \<le> shape0 rule_example \<and> 1 \<le> shape1 rule_example \<and>
   (\<exists>ra ca. row_anchors rule_example = Inr ra \<and> col_anchors rule_example = Inr ca \<and>
      (1 \<in> ra \<longleftrightarrow> rows_are_similar rule_example 0 1 = Inr False \<and> rows_are_similar rule_example 1 2 = Inr False) \<and>
      (1 \<in> ca \<longleftrightarrow> cols_are_similar rule_example 0 1 = Inr False \<or> cols_are_similar rule_example 1 2 = Inr False) \<and>
      1 \<notin> ra \<and> 1 \<in> ca)"
proof -
  have h: "1 \<le> shape0 rule_example" "1 \<le> shape1 rule_example"
    by (simp_all add: rule_example_def shape0_def shape1_def)
  have i: "(0::nat) < 1 \<and> 1 + 1 < shape0 rule_example" "(0::nat) < 1 \<and> 1 + 1 < shape1 rule_example"
    by (simp_all add: rule_example_def shape0_def shape1_def)
  from anchor_rules[OF h] obtain ra ca where
    a: "row_anchors rule_example = Inr ra" "col_anchors rule_example = Inr ca"
    and rr: "\<forall>i. 0 < i \<and> i + 1 < shape0 rule_example \<longrightarrow>
        (i \<in> ra \<longleftrightarrow> rows_are_similar rule_example (i - 1) i = Inr False \<and> rows_are_similar rule_example i (i + 1) = Inr False)"
    and cr: "\<forall>j. 0 < j \<and> j + 1 < shape1 rule_example \<longrightarrow>
        (j \<in> ca \<longleftrightarrow> cols_are_similar rule_example (j - 1) j = Inr False \<or> cols_are_similar rule_example j (j + 1) = Inr False)"
    by blast
  from rr i(1) have r1: "1 \<in> ra \<longleftrightarrow> rows_are_similar rule_example 0 1 = Inr False \<and> rows_are_similar rule_example 1 2 = Inr False"
    by (metis diff_self_eq_0 one_add_one)
  from cr i(2) have c1: "1 \<in> ca \<longleftrightarrow> cols_are_similar rule_example 0 1 = Inr False \<or> cols_are_similar rule_example 1 2 = Inr False"
    by (metis diff_self_eq_0 one_add_one)
  from a rule_example_rows rule_example_cols have "1 \<notin> ra" "1 \<in> ca" by auto
  with h a r1 c1 show ?thesis by blast
qed

text \<open>
  The similarity of the code does not trim: in \<open>trim_example\<close> the rows \<open>a\<close> and
  \<open>a \<close> are equal after trimming, so by the trimmed predicate row 1 is similar to row 0
  and would be no anchor, yet the code marks it.
\<close>

theorem anchor_rule_trimmed_counterexample:
  "row_anchors trim_example = Inr {0, 1, 2} \<and>
   claimed_lines_similar (cells trim_example ! 0) (cells trim_example ! 1)"
  using trim_example_anchors
  by (simp add: claimed_lines_similar_def trim_example_def strip_def isspace_def str_def fillna_str_def)

subsection \<open>First and last lines\<close>

text \<open>
  Claim C4. On every frame with at least one row and at least one column the anchor sets
  contain row 0, the last row, column 0 and the last column, whatever the cells hold.
\<close>

theorem anchors_first_last:
  assumes "1 \<le> shape0 df" and "1 \<le> shape1 df"
  shows "\<exists>ra ca. row_anchors df = Inr ra \<and> col_anchors df = Inr ca \<and>
           0 \<in> ra \<and> shape0 df - 1 \<in> ra \<and> 0 \<in> ca \<and> shape1 df - 1 \<in> ca"
  using assms by (rule anchor_ends)

theorem anchors_first_last_witness:
  "1 \<le> shape0 rule_example \<and> 1 \<le> shape1 rule_example \<and>
   (\<exists>ra ca. row_anchors rule_example = Inr ra \<and> col_anchors rule_example = Inr ca \<and>
           0 \<in> ra \<and> shape0 rule_example - 1 \<in> ra \<and> 0 \<in> ca \<and> shape1 rule_example - 1 \<in> ca)"
proof -
  have h: "1 \<le> shape0 rule_example" "1 \<le> shape1 rule_example"
    by (simp_all add: rule_example_def shape0_def shape1_def)
  from anchors_first_last[OF h] h show ?thesis by blast
qed

subsection \<open>Monotonicity in the margin\<close>

text \<open>
  Claim C5. For a fixed frame and margins \<open>k1 \<le> k2\<close> (in particular
  \<open>0 \<le> k1 \<le> k2\<close>), the call with \<open>k2\<close> raises exactly when the call with \<open>k1\<close>
  does, and every row and column kept at margin \<open>k1\<close> is kept at margin \<open>k2\<close>.
\<close>

theorem survivors_mono:
  assumes "k1 \<le> k2"
  shows "(\<forall>e. skeleton_indices df k1 = Inl e \<longleftrightarrow> skeleton_indices df k2 = Inl e) \<and>
         (\<forall>r1 c1. skeleton_indices df k1 = Inr (r1, c1) \<longrightarrow>
            (\<exists>r2 c2. skeleton_indices df k2 = Inr (r2, c2) \<and> r1 \<subseteq> r2 \<and> c1 \<subseteq> c2))"
  unfolding skeleton_indices_def
  using expand_anchors_mono[OF assms]
  by (auto split: sum.splits)

theorem survivors_mono_witness:
  "(0::int) \<le> 1 \<and>
   skeleton_indices rule_example 0 = Inr ({0, 2}, {0, 1, 2}) \<and>
   (\<exists>r2 c2. skeleton_indices rule_example 1 = Inr (r2, c2) \<and> {0, 2} \<subseteq> r2 \<and> {0, 1, 2} \<subseteq> c2)"
proof -
  have h: "(0::int) \<le> 1" by simp
  have s: "shape0 rule_example = 3" "shape1 rule_example = 3"
    by (simp_all add: shape0_def shape1_def rule_example_def)
  have x: "expand_anchors 3 0 {0, 2} = {0, 2}" "expand_anchors 3 0 {0, 1, 2} = {0, 1, 2}"
    by (auto simp: expand_anchors_def)
  have e: "skeleton_indices rule_example 0 = Inr ({0, 2}, {0, 1, 2})"
    by (simp only: skeleton_indices_def rule_example_rows rule_example_cols s x sum.case)
  from survivors_mono[OF h, of rule_example] e
  have "\<exists>r2 c2. skeleton_indices rule_example 1 = Inr (r2, c2) \<and> {0, 2} \<subseteq> r2 \<and> {0, 1, 2} \<subseteq> c2"
    by blast
  with h e show ?thesis by blast
qed

subsection \<open>Negative margins\<close>

text \<open>
  Claim C7, as the code has it. The margin is never checked. With a negative \<open>k\<close> every
  range \<open>range(max(0, r - k), min(n, r + k + 1))\<close> is empty, so the call returns the frame
  with no rows and no columns; the only exception it can raise is the
  \<open>ZeroDivisionError\<close> of the similarity computation, and not on a frame with at least
  one row and one column.
\<close>

theorem negative_margin_empty:
  assumes "k < 0"
  shows "(extract_structural_skeleton df k = Inr \<lparr> columns = [], cells = [] \<rparr> \<or>
          extract_structural_skeleton df k = Inl ZeroDivisionError) \<and>
         (0 < shape0 df \<and> 0 < shape1 df \<longrightarrow>
            extract_structural_skeleton df k = Inr \<lparr> columns = [], cells = [] \<rparr>)"
proof -
  have a: "extract_structural_skeleton df k = Inr \<lparr> columns = [], cells = [] \<rparr>"
    if "skeleton_indices df k = Inr p" for p
  proof -
    from that have "p = ({}, {})"
      unfolding skeleton_indices_def
      by (auto split: sum.splits simp: expand_anchors_neg[OF assms])
    with that show ?thesis
      by (simp add: extract_structural_skeleton_def iloc_empty)
  qed
  have b: "extract_structural_skeleton df k = Inl ZeroDivisionError"
    if "skeleton_indices df k = Inl e" for e
    using that skeleton_indices_Inl[OF that]
    by (simp add: extract_structural_skeleton_def)
  have "\<exists>p. skeleton_indices df k = Inr p" if "0 < shape0 df" "0 < shape1 df"
    using skeleton_indices_Inr[OF that] by blast
  with a b show ?thesis by (cases "skeleton_indices df k") auto
qed

theorem negative_margin_empty_witness:
  "(- 1 :: int) < 0 \<and> 0 < shape0 rule_example \<and> 0 < shape1 rule_example \<and>
   extract_structural_skeleton rule_example (- 1) = Inr \<lparr> columns = [], cells = [] \<rparr>"
proof -
  have h: "(- 1 :: int) < 0" by simp
  have s: "0 < shape0 rule_example \<and> 0 < shape1 rule_example"
    by (simp add: rule_example_def shape0_def shape1_def)
  from negative_margin_empty[OF h, of rule_example] s h show ?thesis by blast
qed

text \<open>A call with margin \<open>-1\<close> that returns a skeleton instead of raising.\<close>

theorem negative_margin_counterexample:
  "extract_structural_skeleton trim_example (- 1) = Inr \<lparr> columns = [], cells = [] \<rparr>"
  by (simp add: extract_structural_skeleton_def skeleton_indices_def trim_example_anchors
        trim_example_cols expand_anchors_neg iloc_empty)

subsection \<open>The skeleton is never empty\<close>

text \<open>
  Claim C10. On a frame with at least one row and one column and a margin \<open>k \<ge> 0\<close>,
  the kept row positions and column positions contain 0 and lie inside \<open>[0, rows)\<close> and
  \<open>[0, cols)\<close>, and the returned skeleton has at least one row and one column.
\<close>

theorem skeleton_nonempty:
  assumes "1 \<le> shape0 df" and "1 \<le> shape1 df" and "0 \<le> k"
  shows "\<exists>rk ck sk. skeleton_indices df k = Inr (rk, ck) \<and>
           0 \<in> rk \<and> 0 \<in> ck \<and> rk \<subseteq> {0..<int (shape0 df)} \<and> ck \<subseteq> {0..<int (shape1 df)} \<and>
           extract_structural_skeleton df k = Inr sk \<and>
           shape0 sk = card rk \<and> shape1 sk = card ck \<and> 1 \<le> shape0 sk \<and> 1 \<le> shape1 sk"
proof -
  have r: "0 < shape0 df" and c: "0 < shape1 df" using assms by simp_all
  from anchor_ends[OF assms(1,2)] obtain ra ca where
    ra: "row_anchors df = Inr ra" and ca: "col_anchors df = Inr ca" and z: "0 \<in> ra" "0 \<in> ca"
    by blast
  define rk where "rk = expand_anchors (shape0 df) k ra"
  define ck where "ck = expand_anchors (shape1 df) k ca"
  have si: "skeleton_indices df k = Inr (rk, ck)"
    by (simp add: skeleton_indices_def ra ca rk_def ck_def)
  have zr: "0 \<in> rk" using expand_anchors_self[OF assms(3) z(1) r] by (simp add: rk_def)
  have zc: "0 \<in> ck" using expand_anchors_self[OF assms(3) z(2) c] by (simp add: ck_def)
  have br: "rk \<subseteq> {0..<int (shape0 df)}" unfolding rk_def by (rule expand_anchors_bounds)
  have bc: "ck \<subseteq> {0..<int (shape1 df)}" unfolding ck_def by (rule expand_anchors_bounds)
  have fr: "finite rk" unfolding rk_def by (rule finite_expand_anchors)
  have fc: "finite ck" unfolding ck_def by (rule finite_expand_anchors)
  from iloc_in_range[of "sorted_list_of_set rk" df "sorted_list_of_set ck"] br bc fr fc
  obtain sk where sk: "iloc df (sorted_list_of_set rk) (sorted_list_of_set ck) = Inr sk"
    "shape0 sk = card rk" "shape1 sk = card ck"
    by auto
  have "card rk \<noteq> 0" "card ck \<noteq> 0" using zr zc fr fc by auto
  then have "1 \<le> shape0 sk" "1 \<le> shape1 sk" using sk by simp_all
  moreover have "extract_structural_skeleton df k = Inr sk"
    by (simp add: extract_structural_skeleton_def si sk)
  ultimately show ?thesis using si zr zc br bc sk by blast
qed

theorem skeleton_nonempty_witness:
  "1 \<le> shape0 rule_example \<and> 1 \<le> shape1 rule_example \<and> (0::int) \<le> 1 \<and>
   (\<exists>rk ck sk. skeleton_indices rule_example 1 = Inr (rk, ck) \<and>
           0 \<in> rk \<and> 0 \<in> ck \<and> rk \<subseteq> {0..<int (shape0 rule_example)} \<and>
           ck \<subseteq> {0..<int (shape1 rule_example)} \<and>
           extract_structural_skeleton rule_example 1 = Inr sk \<and>
           shape0 sk = card rk \<and> shape1 sk = card ck \<and> 1 \<le> shape0 sk \<and> 1 \<le> shape1 sk)"
proof -
  have h: "1 \<le> shape0 rule_example" "1 \<le> shape1 rule_example" "(0::int) \<le> 1"
    by (simp_all add: rule_example_def shape0_def shape1_def)
  from skeleton_nonempty[OF h] h show ?thesis by blast
qed

section \<open>Properties of the cell classifier\<close>

lemma repeat_numeral: "repeat (numeral n) r = Seq r (repeat (pred_numeral n) r)"
  by (simp add: numeral_eq_Suc)

lemmas re_eval = repeat_numeral re_match_def chr_def ichr_def lit_def optional_def one_or_more_def
  repeat_range_def at_least_def digit_def space_def
  isdecimal_def decimal_zeros_def in_range_def one_of_def isspace_def str_def
  year_re_def email_re_def percentage_re_def currency_re_def scientific_re_def
  date_patterns_def time_re_def float_re_def integer_re_def

lemma strip_idem: "strip (strip s) = strip s"
proof -
  define t where "t = rev (dropWhile isspace (rev s))"
  show ?thesis
  proof (cases "dropWhile isspace t = []")
    case True
    then have "strip s = []" by (simp add: strip_def t_def)
    moreover have "strip [] = []" by (simp add: strip_def)
    ultimately show ?thesis by simp
  next
    case False
    define u where "u = dropWhile isspace t"
    have u: "u \<noteq> []" using False by (simp add: u_def)
    have "\<not> isspace (hd u)" unfolding u_def using False by (rule hd_dropWhile)
    then have l: "dropWhile isspace u = u" by (cases u) auto
    have tne: "t \<noteq> []" using False by auto
    have "last u = last t" using False unfolding u_def
      by (metis takeWhile_dropWhile_id last_appendR)
    moreover have "\<not> isspace (last t)"
    proof -
      have "rev t = dropWhile isspace (rev s)" by (simp add: t_def)
      moreover have "rev t \<noteq> []" using tne by simp
      ultimately have "\<not> isspace (hd (rev t))" by (metis hd_dropWhile)
      then show ?thesis using tne by (simp add: hd_rev)
    qed
    ultimately have "\<not> isspace (last u)" by simp
    then have "dropWhile isspace (rev u) = rev u"
      using u by (cases "rev u") (auto simp: last_rev hd_rev)
    then have "strip u = u" by (simp add: strip_def l)
    then show ?thesis by (simp add: strip_def u_def t_def)
  qed
qed

lemma recognize_strip: "recognize_data_type (Some v) = recognize_data_type (Some (strip v))"
  by (simp add: recognize_data_type_def strip_idem)

lemma recognize_year: "recognize_data_type (Some (str ''2024'')) = str ''Year''"
  by (simp add: recognize_data_type_def strip_def re_eval)
lemma recognize_float: "recognize_data_type (Some (str ''2024.5'')) = str ''Float''"
  by (simp add: recognize_data_type_def strip_def re_eval)
lemma recognize_percentage: "recognize_data_type (Some (str ''75%'')) = str ''Percentage''"
  by (simp add: recognize_data_type_def strip_def re_eval)
lemma recognize_currency: "recognize_data_type (Some (str ''$1,234.56'')) = str ''Currency''"
  by (simp add: recognize_data_type_def strip_def re_eval)
lemma recognize_email: "recognize_data_type (Some (str ''user@x.com'')) = str ''Email''"
  by (simp add: recognize_data_type_def strip_def re_eval)
lemma recognize_empty: "recognize_data_type (Some []) = str ''Empty''"
  by (simp add: recognize_data_type_def strip_def re_eval)
lemma recognize_missing: "recognize_data_type None = str ''Empty''"
  by (simp add: recognize_data_type_def)
lemma recognize_others: "recognize_data_type (Some (str ''hello'')) = str ''Others''"
  by (simp add: recognize_data_type_def strip_def re_eval)
lemma recognize_padded: "recognize_data_type (Some (str ''  42  '')) = str ''Integer''"
  by (simp add: recognize_data_type_def strip_def re_eval)
lemma recognize_time: "recognize_data_type (Some (str ''2:30 pm'')) = str ''Time''"
  by (simp add: recognize_data_type_def strip_def re_eval)
lemma recognize_date: "recognize_data_type (Some (str ''01/15/2024'')) = str ''Date''"
  by (simp add: recognize_data_type_def strip_def re_eval)
lemma recognize_scientific: "recognize_data_type (Some (str ''6.022e23'')) = str ''ScientificNotation''"
  by (simp add: recognize_data_type_def strip_def re_eval)

lemma first_rule: "recognize_data_type (Some s) =
    (if strip s = [] then str ''Empty'' else first_matching_rule (strip s))"
  by (simp add: recognize_data_type_def first_matching_rule_def rule_order_def Let_def)

subsection \<open>Precedence of the rules\<close>

text \<open>
  Claim C8, as the code has it. \<open>recognize_data_type\<close> gives \<open>'Empty'\<close> to a missing or
  blank value and otherwise the label of the first rule that matches in the order Year,
  Email, Percentage, Currency, ScientificNotation, Date, Time, Float, Integer, and
  \<open>'Others'\<close> when none matches. So \<open>"2024"\<close> is a Year, \<open>"2024.5"\<close> a Float,
  \<open>"75%"\<close> a Percentage, \<open>"$1,234.56"\<close> a Currency, \<open>"user@x.com"\<close> an Email, the
  empty string and a missing value are Empty, and \<open>"hello"\<close> gets the label
  \<open>'Others'\<close>, which \<open>aggregate_by_data_format\<close> records with type \<open>'Text'\<close>.
\<close>

theorem classifier_precedence:
  "(\<forall>s. recognize_data_type (Some s) =
      (if strip s = [] then str ''Empty'' else first_matching_rule (strip s))) \<and>
   recognize_data_type (Some (str ''2024'')) = str ''Year'' \<and>
   recognize_data_type (Some (str ''2024.5'')) = str ''Float'' \<and>
   recognize_data_type (Some (str ''75%'')) = str ''Percentage'' \<and>
   recognize_data_type (Some (str ''$1,234.56'')) = str ''Currency'' \<and>
   recognize_data_type (Some (str ''user@x.com'')) = str ''Email'' \<and>
   recognize_data_type (Some []) = str ''Empty'' \<and>
   recognize_data_type None = str ''Empty'' \<and>
   recognize_data_type (Some (str ''hello'')) = str ''Others'' \<and>
   cell_type (snd (aggregate_cell a (Some (str ''hello'')))) = str ''Text''"
proof -
  have "str ''Others'' \<notin> set well_defined_formats"
    by (simp add: well_defined_formats_def str_def)
  then have "cell_type (snd (aggregate_cell a (Some (str ''hello'')))) = str ''Text''"
    by (simp add: aggregate_cell_def recognize_others)
  then show ?thesis
    using first_rule recognize_year recognize_float recognize_percentage recognize_currency recognize_email recognize_empty recognize_missing recognize_others by blast
qed

text \<open>The label \<open>recognize_data_type\<close> returns for \<open>"hello"\<close> is not \<open>'Text'\<close>.\<close>

theorem classifier_text_counterexample:
  "recognize_data_type (Some (str ''hello'')) \<noteq> str ''Text''"
  by (simp add: recognize_others) (simp add: str_def)

subsection \<open>Surrounding whitespace\<close>

text \<open>
  Claim C9. The classifier works on the stripped text, so for every text value \<open>v\<close> the
  label of \<open>v\<close> is the label of \<open>v.strip()\<close>; for example \<open>"  42  "\<close> is an Integer.
\<close>

theorem classifier_trim:
  "recognize_data_type (Some v) = recognize_data_type (Some (strip v)) \<and>
   recognize_data_type (Some (str ''  42  '')) = str ''Integer''"
  using recognize_strip recognize_padded by blast

section \<open>Properties of the inverted index\<close>

subsection \<open>Decimal text and \<open>int\<close>\<close>

lemma digit_value_ascii: "48 \<le> c \<Longrightarrow> c \<le> 57 \<Longrightarrow> digit_value c = Some (c - 48)"
  by (simp add: digit_value_def decimal_zeros_def)

lemma dec_nonempty: "dec n \<noteq> []"
  by (subst dec.simps) simp

lemma dec_digits: "c \<in> set (dec n) \<Longrightarrow> 48 \<le> c \<and> c \<le> 57"
proof (induction n arbitrary: c rule: dec.induct)
  case (1 n)
  show ?case
  proof (cases "n < 10")
    case True
    with "1.prems" show ?thesis by (subst (asm) dec.simps) simp
  next
    case False
    from "1.prems" False have "c \<in> set (dec (n div 10)) \<or> c = 48 + n mod 10"
      by (subst (asm) dec.simps) auto
    then show ?thesis
    proof
      assume "c \<in> set (dec (n div 10))"
      with "1.IH"[OF False] show ?thesis by blast
    next
      assume "c = 48 + n mod 10"
      moreover have "n mod 10 < 10" by simp
      ultimately show ?thesis by linarith
    qed
  qed
qed

lemma int_digits_ascii:
  assumes "s \<noteq> []" and "\<And>c. c \<in> set s \<Longrightarrow> 48 \<le> c \<and> c \<le> 57"
  shows "int_digits s = Some (map (\<lambda>c. c - 48) s)"
  using assms
proof (induction s rule: int_digits.induct)
  case 1
  then show ?case by simp
next
  case (2 c cs)
  have c: "digit_value c = Some (c - 48)" using "2.prems"(2)[of c] by (simp add: digit_value_ascii)
  show ?case
  proof (cases cs)
    case Nil
    with c show ?thesis by simp
  next
    case (Cons x xs)
    have "48 \<le> x" using "2.prems"(2)[of x] Cons by simp
    then have x: "x \<noteq> 0x5F" using "2.prems"(2)[of x] Cons by simp
    have "int_digits cs = Some (map (\<lambda>c. c - 48) cs)"
      using "2.IH"(2)[OF c Cons x] "2.prems"(2) Cons by simp
    with c Cons x show ?thesis by simp
  qed
qed

lemma digits_value_snoc: "digits_value (ds @ [v]) = 10 * digits_value ds + v"
  by (simp add: digits_value_def)

lemma digits_value_dec: "digits_value (map (\<lambda>c. c - 48) (dec n)) = n"
proof (induction n rule: dec.induct)
  case (1 n)
  show ?case
  proof (cases "n < 10")
    case True
    then show ?thesis by (subst dec.simps) (simp add: digits_value_def)
  next
    case False
    have "digits_value (map (\<lambda>c. c - 48) (dec n)) =
          10 * digits_value (map (\<lambda>c. c - 48) (dec (n div 10))) + n mod 10"
      using False by (subst dec.simps) (simp add: digits_value_snoc)
    with "1.IH"[OF False] show ?thesis by simp
  qed
qed

lemma not_space_digit: "48 \<le> c \<Longrightarrow> c \<le> 57 \<Longrightarrow> \<not> int_isspace c"
  by (auto simp: int_isspace_def isspace_def)

lemma py_int_dec: "py_int (dec n) = Inr (int n)"
proof -
  let ?s = "dec n"
  have ne: "?s \<noteq> []" by (rule dec_nonempty)
  have dg: "\<And>c. c \<in> set ?s \<Longrightarrow> 48 \<le> c \<and> c \<le> 57" by (rule dec_digits)
  have l: "\<not> int_isspace (last ?s)" using ne dg[of "last ?s"] not_space_digit by simp
  have h: "\<not> int_isspace (hd ?s)" using ne dg[of "hd ?s"] not_space_digit by simp
  have "dropWhile int_isspace (rev ?s) = rev ?s"
    using ne l by (cases "rev ?s") (auto simp: last_rev hd_rev)
  moreover have "dropWhile int_isspace ?s = ?s" using ne h by (cases ?s) auto
  ultimately have t: "dropWhile int_isspace (rev (dropWhile int_isspace (rev ?s))) = ?s" by simp
  have sg: "hd ?s \<noteq> 0x2D \<and> hd ?s \<noteq> 0x2B" using ne dg[of "hd ?s"] by auto
  show ?thesis
    unfolding py_int_def t Let_def
    using sg int_digits_ascii[OF ne dg] digits_value_dec by simp
qed

lemma int_digits_chars:
  "int_digits s = Some ds \<Longrightarrow> c \<in> set s \<Longrightarrow> c = 0x5F \<or> digit_value c \<noteq> None"
proof (induction s arbitrary: ds rule: int_digits.induct)
  case 1
  then show ?case by simp
next
  case (2 a cs)
  from "2.prems"(1) obtain v where v: "digit_value a = Some v"
    by (auto split: option.splits)
  show ?case
  proof (cases cs)
    case Nil
    with "2.prems" v show ?thesis by auto
  next
    case (Cons x xs)
    show ?thesis
    proof (cases "x = 0x5F")
      case True
      with "2.prems"(1) v Cons obtain ds' where "int_digits xs = Some ds'" by auto
      with "2.IH"(1)[OF v Cons True] have "c \<in> set xs \<Longrightarrow> c = 0x5F \<or> digit_value c \<noteq> None" by blast
      with "2.prems"(2) v Cons True show ?thesis by auto
    next
      case False
      with "2.prems"(1) v Cons obtain ds' where "int_digits cs = Some ds'" by auto
      with "2.IH"(2)[OF v Cons False] have "c \<in> set cs \<Longrightarrow> c = 0x5F \<or> digit_value c \<noteq> None" by blast
      with "2.prems"(2) v show ?thesis by auto
    qed
  qed
qed

lemma set_strip_subset:
  fixes s :: "'a list"
  shows "set s \<subseteq> set (dropWhile P (rev (dropWhile P (rev s)))) \<union> {c. P c}"
proof -
  have a: "set xs \<subseteq> set (dropWhile P xs) \<union> {c. P c}" for xs :: "'a list"
    by (induction xs) auto
  have "set s = set (rev s)" by simp
  also have "\<dots> \<subseteq> set (dropWhile P (rev s)) \<union> {c. P c}" by (rule a)
  also have "set (dropWhile P (rev s)) = set (rev (dropWhile P (rev s)))" by simp
  also have "set (rev (dropWhile P (rev s))) \<union> {c. P c} \<subseteq>
     set (dropWhile P (rev (dropWhile P (rev s)))) \<union> {c. P c}"
    using a[of "rev (dropWhile P (rev s))"] by auto
  finally show ?thesis .
qed

lemma py_int_chars:
  assumes "py_int s = Inr n" and "c \<in> set s"
  shows "int_isspace c \<or> c = 0x2D \<or> c = 0x2B \<or> c = 0x5F \<or> digit_value c \<noteq> None"
proof -
  define t where "t = dropWhile int_isspace (rev (dropWhile int_isspace (rev s)))"
  define body where "body = (if t \<noteq> [] \<and> (hd t = 0x2D \<or> hd t = 0x2B) then tl t else t)"
  from assms(1) obtain ds where ds: "int_digits body = Some ds"
    unfolding py_int_def Let_def t_def body_def by (auto split: option.splits)
  have "c \<in> set t \<or> int_isspace c" using assms(2) set_strip_subset[of s int_isspace] t_def by auto
  moreover have "c \<in> set t \<Longrightarrow> c \<in> set body \<or> c = 0x2D \<or> c = 0x2B"
    unfolding body_def by (cases t) (auto split: if_splits)
  ultimately show ?thesis using int_digits_chars[OF ds] by blast
qed

lemma py_int_no_separator:
  assumes "py_int s = Inr n"
  shows "0x2C \<notin> set s \<and> 0x3A \<notin> set s"
proof -
  have a: "\<not> int_isspace 0x2C" "\<not> int_isspace 0x3A" by (simp_all add: int_isspace_def)
  have b: "digit_value 0x2C = None" "digit_value 0x3A = None"
    by (simp_all add: digit_value_def decimal_zeros_def)
  show ?thesis using py_int_chars[OF assms, of "0x2C"] py_int_chars[OF assms, of "0x3A"] a b by auto
qed

subsection \<open>Splitting, joining and reading ranges\<close>

lemma split_on_none: "sep \<notin> set x \<Longrightarrow> split_on sep x = [x]"
  by (induction x) auto

lemma split_on_append: "sep \<notin> set x \<Longrightarrow> split_on sep (x @ sep # rest) = x # split_on sep rest"
  by (induction x) auto

lemma split_on_join:
  "xs \<noteq> [] \<Longrightarrow> list_all (\<lambda>x. sep \<notin> set x) xs \<Longrightarrow> split_on sep (join sep xs) = xs"
proof (induction sep xs rule: join.induct)
  case (1 sep)
  then show ?case by simp
next
  case (2 sep x)
  then show ?case by (simp add: split_on_none)
next
  case (3 sep x y rest)
  then show ?case by (simp add: split_on_append)
qed

lemma addr_ok_parts:
  assumes "addr_ok a"
  shows "a \<noteq> []" and "hd a \<noteq> 0x2C" and "hd a \<noteq> 0x3A"
    and "py_int (tl a) = Inr (snd (address_coordinate a))"
    and "address_coordinate a = (hd a, snd (address_coordinate a))"
  using assms unfolding addr_ok_def address_coordinate_def
  by (auto split: sum.splits)

lemma addr_ok_no_separator:
  assumes "addr_ok a"
  shows "0x2C \<notin> set a" and "0x3A \<notin> set a"
proof -
  have "a = hd a # tl a" using addr_ok_parts(1)[OF assms] by simp
  then have "set a = insert (hd a) (set (tl a))" by (metis list.simps(15))
  with py_int_no_separator[OF addr_ok_parts(4)[OF assms]] addr_ok_parts(2,3)[OF assms]
  show "0x2C \<notin> set a" and "0x3A \<notin> set a" by auto
qed

lemma decode_address_ok: "addr_ok a \<Longrightarrow> decode_address a = Some (address_coordinate a)"
  unfolding addr_ok_def decode_address_def address_coordinate_def
  by (cases a) (auto split: sum.splits)

lemma decode_range_single:
  assumes "addr_ok s"
  shows "decode_range s =
     Some (map (Pair (hd s)) [snd (address_coordinate s) .. snd (address_coordinate s)])"
  using addr_ok_parts(5)[OF assms]
  by (simp add: decode_range_def split_on_none[OF addr_ok_no_separator(2)[OF assms]]
        decode_address_ok[OF assms])

lemma decode_range_pair:
  assumes "addr_ok s" and "addr_ok e" and "hd s = hd e"
  shows "decode_range (s @ [0x3A] @ e) =
     Some (map (Pair (hd s)) [snd (address_coordinate s) .. snd (address_coordinate e)])"
proof -
  have "split_on 0x3A (s @ [0x3A] @ e) = [s, e]"
    using split_on_append[OF addr_ok_no_separator(2)[OF assms(1)], of e]
      split_on_none[OF addr_ok_no_separator(2)[OF assms(2)]] by simp
  moreover have "decode_address s = Some (hd s, snd (address_coordinate s))"
    using decode_address_ok[OF assms(1)] addr_ok_parts(5)[OF assms(1)] by simp
  moreover have "decode_address e = Some (hd s, snd (address_coordinate e))"
    using decode_address_ok[OF assms(2)] addr_ok_parts(5)[OF assms(2)] assms(3) by simp
  ultimately show ?thesis by (simp add: decode_range_def)
qed

lemma expand_list_snoc:
  "expand_list (xs @ [x]) =
     (case expand_list xs of
        None \<Rightarrow> None
      | Some cs \<Rightarrow> map_option (\<lambda>c. cs @ c) (decode_range x))"
proof (cases "decode_range x")
  case None
  then show ?thesis by (induction xs) (auto split: option.splits)
next
  case (Some c)
  then show ?thesis by (induction xs) (auto split: option.splits)
qed

text \<open>Closing the open range.\<close>

lemma finish_range_inv:
  assumes "sweep_inv st seen" and "current_col st \<noteq> None"
  shows "expand_list (finish_range st) = Some seen"
    and "list_all (\<lambda>d. 0x2C \<notin> set d) (finish_range st)"
    and "finish_range st \<noteq> []"
proof -
  from assms obtain c s e cs where
    st: "current_col st = Some c" "current_range_start st = Some s" "current_range_end st = Some e"
    and ok: "addr_ok s" "addr_ok e" "hd s = c" "hd e = c"
    and lt: "s = e \<or> snd (address_coordinate s) < snd (address_coordinate e)"
    and cs: "expand_list (ranges st) = Some cs"
      "seen = cs @ map (Pair c) [snd (address_coordinate s) .. snd (address_coordinate e)]"
    and nc: "list_all (\<lambda>d. 0x2C \<notin> set d) (ranges st)"
    unfolding sweep_inv_def by (auto split: option.splits)
  have tr: "truthy (current_range_start st)"
    using st(2) addr_ok_parts(1)[OF ok(1)] by (simp add: truthy_def)
  let ?text = "if s = e then s else s @ [0x3A] @ e"
  have fin: "finish_range st = ranges st @ [?text]"
    using tr st by (simp add: finish_range_def append_range_def range_text_def format_value_def)
  have dr: "decode_range ?text =
      Some (map (Pair c) [snd (address_coordinate s) .. snd (address_coordinate e)])"
    using decode_range_single[OF ok(1)] decode_range_pair[OF ok(1,2)] ok(3,4) by auto
  show "expand_list (finish_range st) = Some seen"
    unfolding fin expand_list_snoc using cs dr by simp
  have "0x2C \<notin> set ?text"
    using addr_ok_no_separator(1)[OF ok(1)] addr_ok_no_separator(1)[OF ok(2)] by auto
  then show "list_all (\<lambda>d. 0x2C \<notin> set d) (finish_range st)"
    unfolding fin using nc by simp
  show "finish_range st \<noteq> []" unfolding fin by simp
qed

lemma finish_range_initial:
  assumes "sweep_inv st seen" and "current_col st = None"
  shows "finish_range st = []" and "seen = []"
  using assms unfolding sweep_inv_def finish_range_def truthy_def by auto

lemma sweep_inv_new_range:
  assumes "sweep_inv st seen" and "addr_ok a"
  shows "sweep_inv \<lparr> ranges = finish_range st, current_range_start = Some a,
           current_range_end = Some a, current_col = Some (hd a) \<rparr>
         (seen @ [address_coordinate a])"
proof (cases "current_col st")
  case None
  from finish_range_initial[OF assms(1) None] addr_ok_parts(5)[OF assms(2)] assms(2)
  show ?thesis by (simp add: sweep_inv_def)
next
  case (Some c)
  then have "current_col st \<noteq> None" by simp
  from finish_range_inv[OF assms(1) this] addr_ok_parts(5)[OF assms(2)] assms(2)
  show ?thesis by (simp add: sweep_inv_def)
qed

lemma sweep_step_inv:
  assumes "sweep_inv st seen" and "addr_ok a"
  shows "\<exists>st'. sweep_step st (parsed_of a) = Inr st' \<and>
           sweep_inv st' (seen @ [address_coordinate a])"
proof (cases "current_col st \<noteq> Some (hd a)")
  case True
  then have "sweep_step st (parsed_of a) =
      Inr \<lparr> ranges = finish_range st, current_range_start = Some a,
            current_range_end = Some a, current_col = Some (hd a) \<rparr>"
    by (simp add: sweep_step_def parsed_of_def)
  with sweep_inv_new_range[OF assms] show ?thesis by simp
next
  case False
  then have col: "current_col st = Some (hd a)" by simp
  with assms(1) obtain s e cs where
    st: "current_range_start st = Some s" "current_range_end st = Some e"
    and ok: "addr_ok s" "addr_ok e" "hd s = hd a" "hd e = hd a"
    and lt: "s = e \<or> snd (address_coordinate s) < snd (address_coordinate e)"
    and cs: "expand_list (ranges st) = Some cs"
      "seen = cs @ map (Pair (hd a)) [snd (address_coordinate s) .. snd (address_coordinate e)]"
    and nc: "list_all (\<lambda>d. 0x2C \<notin> set d) (ranges st)"
    unfolding sweep_inv_def by (auto split: option.splits)
  let ?r = "snd (address_coordinate a)"
  let ?rs = "snd (address_coordinate s)"
  let ?re = "snd (address_coordinate e)"
  have prev: "py_int (tl e) = Inr ?re" by (rule addr_ok_parts(4)[OF ok(2)])
  have le: "?rs \<le> ?re" using lt by auto
  show ?thesis
  proof (cases "?r = ?re + 1")
    case True
    have step: "sweep_step st (parsed_of a) = Inr (st \<lparr> current_range_end := Some a \<rparr>)"
      using col st prev True by (simp add: sweep_step_def parsed_of_def)
    have "[?rs .. ?r] = [?rs .. ?re] @ [?r]"
      using True le by (simp add: upto_rec2)
    then have "seen @ [address_coordinate a] = cs @ map (Pair (hd a)) [?rs .. ?r]"
      using cs(2) addr_ok_parts(5)[OF assms(2)] by simp
    moreover have "?rs < ?r" using True le by simp
    ultimately have "sweep_inv (st \<lparr> current_range_end := Some a \<rparr>) (seen @ [address_coordinate a])"
      using col st ok assms(2) cs(1) nc by (simp add: sweep_inv_def)
    with step show ?thesis by simp
  next
    case False
    have "truthy (current_range_start st)"
      using st(1) addr_ok_parts(1)[OF ok(1)] by (simp add: truthy_def)
    then have "append_range st = finish_range st" by (simp add: finish_range_def)
    then have "sweep_step st (parsed_of a) =
      Inr \<lparr> ranges = finish_range st, current_range_start = Some a,
            current_range_end = Some a, current_col = Some (hd a) \<rparr>"
      using col st prev False by (simp add: sweep_step_def parsed_of_def)
    with sweep_inv_new_range[OF assms] show ?thesis by simp
  qed
qed

lemma sweep_inv_run:
  assumes "sweep_inv st seen" and "list_all addr_ok as"
  shows "\<exists>st'. sweep st (map parsed_of as) = Inr st' \<and>
           sweep_inv st' (seen @ map address_coordinate as) \<and>
           (as \<noteq> [] \<longrightarrow> current_col st' \<noteq> None)"
  using assms
proof (induction as arbitrary: st seen)
  case Nil
  then show ?case by simp
next
  case (Cons a as)
  from Cons.prems have a: "addr_ok a" and as: "list_all addr_ok as" by simp_all
  from sweep_step_inv[OF Cons.prems(1) a] obtain st1 where
    s1: "sweep_step st (parsed_of a) = Inr st1" "sweep_inv st1 (seen @ [address_coordinate a])"
    by blast
  have c1: "current_col st1 \<noteq> None"
    using s1(2) unfolding sweep_inv_def by (auto split: option.splits)
  from Cons.IH[OF s1(2) as] obtain st' where
    s2: "sweep st1 (map parsed_of as) = Inr st'"
      "sweep_inv st' ((seen @ [address_coordinate a]) @ map address_coordinate as)"
      "as \<noteq> [] \<longrightarrow> current_col st' \<noteq> None"
    by blast
  have "current_col st' \<noteq> None"
  proof (cases as)
    case Nil
    with s2(1) c1 show ?thesis by simp
  next
    case (Cons b bs)
    with s2(3) show ?thesis by simp
  qed
  with s1(1) s2(1,2) show ?case by simp
qed

subsection \<open>What \<open>merge_cell_ranges\<close> covers\<close>

lemma parse_addresses_ok:
  "list_all addr_ok as \<Longrightarrow> parse_addresses as = Inr (map parsed_of as)"
proof (induction as)
  case Nil
  then show ?case by simp
next
  case (Cons a as)
  from Cons.prems have a: "addr_ok a" and as: "list_all addr_ok as" by simp_all
  obtain c t where ct: "a = c # t" using addr_ok_parts(1)[OF a] by (cases a) auto
  have "py_int t = Inr (snd (address_coordinate a))" using addr_ok_parts(4)[OF a] ct by simp
  with Cons.IH[OF as] ct show ?case by (simp add: parsed_of_def)
qed

lemma sort_parsed:
  "\<exists>bs. sort (map parsed_of as) = map parsed_of bs \<and> mset bs = mset as"
proof -
  let ?ps = "sort (map parsed_of as)"
  let ?bs = "map (\<lambda>p. snd (snd p)) ?ps"
  have "parsed_of (snd (snd p)) = p" if "p \<in> set ?ps" for p
    using that by (auto simp: parsed_of_def)
  then have "map (\<lambda>p. parsed_of (snd (snd p))) ?ps = ?ps" by (intro map_idI) simp
  then have "map parsed_of ?bs = ?ps" by (simp add: comp_def)
  moreover have "mset ?bs = mset as"
  proof -
    have "mset ?bs = image_mset (\<lambda>p. snd (snd p)) (image_mset parsed_of (mset as))"
      by simp
    also have "\<dots> = mset as"
      by (simp add: image_mset.compositionality comp_def parsed_of_def)
    finally show ?thesis .
  qed
  ultimately show ?thesis by metis
qed

lemma decode_range_empty: "decode_range [] = None"
  by (simp add: decode_range_def decode_address_def)

lemma join_nonempty: "x \<noteq> [] \<Longrightarrow> join sep (x # rest) \<noteq> []"
  by (cases rest) auto

lemma sweep_inv_initial:
  "sweep_inv \<lparr> ranges = [], current_range_start = None,
               current_range_end = None, current_col = None \<rparr> []"
  by (simp add: sweep_inv_def)

lemma merge_expand:
  assumes "list_all addr_ok as"
  shows "\<exists>s bs. merge_cell_ranges as = Inr s \<and>
           expand_ranges s = Some (map address_coordinate bs) \<and>
           mset bs = mset as \<and> map parsed_of bs = sort (map parsed_of as) \<and>
           (as \<noteq> [] \<longrightarrow> s \<noteq> [])"
proof (cases "as = []")
  case True
  then show ?thesis by (simp add: merge_cell_ranges_def expand_ranges_def)
next
  case False
  from sort_parsed obtain bs where
    bs: "sort (map parsed_of as) = map parsed_of bs" "mset bs = mset as" by blast
  have "set bs = set as" using bs(2) by (metis set_mset_mset)
  with assms have ok: "list_all addr_ok bs" by (simp add: list_all_iff)
  have ne: "bs \<noteq> []" using bs(2) False by auto
  from sweep_inv_run[OF sweep_inv_initial ok] ne obtain st where
    st: "sweep \<lparr> ranges = [], current_range_start = None,
                 current_range_end = None, current_col = None \<rparr> (map parsed_of bs) = Inr st"
      "sweep_inv st (map address_coordinate bs)" "current_col st \<noteq> None"
    by auto
  let ?fin = "finish_range st"
  have m: "merge_cell_ranges as = Inr (join 0x2C ?fin)"
    using False parse_addresses_ok[OF assms] bs(1) st(1) by (simp add: merge_cell_ranges_def)
  from finish_range_inv[OF st(2,3)] have
    ex: "expand_list ?fin = Some (map address_coordinate bs)"
    and nc: "list_all (\<lambda>d. 0x2C \<notin> set d) ?fin" and fne: "?fin \<noteq> []"
    by simp_all
  obtain x rest where xr: "?fin = x # rest" using fne by (cases ?fin) auto
  have "x \<noteq> []" using ex xr decode_range_empty by (auto split: option.splits)
  then have jn: "join 0x2C ?fin \<noteq> []" using xr join_nonempty by simp
  then have "expand_ranges (join 0x2C ?fin) = Some (map address_coordinate bs)"
    using split_on_join[OF fne nc] ex by (simp add: expand_ranges_def)
  with m bs jn show ?thesis by metis
qed


lemmas merge_eval =
  merge_cell_ranges_def py_int_def int_isspace_def isspace_def digit_value_def
  decimal_zeros_def digits_value_def sweep_step_def finish_range_def append_range_def
  range_text_def truthy_def
  format_value_def str_def Let_def

lemma merge_gap:
  "merge_cell_ranges (map str [''A1'', ''A2'', ''A3'', ''A5'']) = Inr (str ''A1:A3,A5'')"
  by (simp add: merge_eval)

lemma merge_columns:
  "merge_cell_ranges (map str [''A1'', ''B1'', ''A2'']) = Inr (str ''A1:A2,B1'')"
  by (simp add: merge_eval)




subsection \<open>The index of a frame\<close>

lemma index_append_pairs:
  "mset (index_pairs (index_append index k a)) = mset (index_pairs index) + {#(k, a)#}"
  by (induction index k a rule: index_append.induct) (auto simp: index_pairs_def)

lemma index_append_keys:
  "set (map fst (index_append index k a)) = insert k (set (map fst index))"
  by (induction index k a rule: index_append.induct) auto

lemma index_append_distinct:
  "distinct (map fst index) \<Longrightarrow> distinct (map fst (index_append index k a))"
proof (induction index k a rule: index_append.induct)
  case (1 key addr)
  then show ?case by simp
next
  case (2 k addrs rest key addr)
  then show ?case using index_append_keys[of rest key addr] by auto
qed

lemma index_append_nonempty:
  "list_all (\<lambda>(k, vs). vs \<noteq> []) index \<Longrightarrow>
   list_all (\<lambda>(k, vs). vs \<noteq> []) (index_append index k a)"
  by (induction index k a rule: index_append.induct) auto

lemma index_cell_inv:
  "mset (index_pairs (index_cell df index p)) = mset (index_pairs index) + mset (cell_pairs df p)"
  "distinct (map fst index) \<Longrightarrow> distinct (map fst (index_cell df index p))"
  "list_all (\<lambda>(k, vs). vs \<noteq> []) index \<Longrightarrow> list_all (\<lambda>(k, vs). vs \<noteq> []) (index_cell df index p)"
  unfolding index_cell_def cell_pairs_def
  by (auto split: prod.splits option.splits
      simp: index_append_pairs index_append_distinct index_append_nonempty)

lemma foldl_index_cell:
  assumes "distinct (map fst index)" and "list_all (\<lambda>(k, vs). vs \<noteq> []) index"
  shows "mset (index_pairs (foldl (index_cell df) index ps)) =
           mset (index_pairs index) + mset (concat (map (cell_pairs df) ps)) \<and>
         distinct (map fst (foldl (index_cell df) index ps)) \<and>
         list_all (\<lambda>(k, vs). vs \<noteq> []) (foldl (index_cell df) index ps)"
  using assms
proof (induction ps arbitrary: index)
  case Nil
  then show ?case by simp
next
  case (Cons p ps)
  from Cons.IH[OF index_cell_inv(2)[OF Cons.prems(1), of df p]
      index_cell_inv(3)[OF Cons.prems(2), of df p]]
  show ?case by (simp add: index_cell_inv(1))
qed

lemma build_index_inv:
  "mset (index_pairs (build_index df)) =
     mset (concat (map (cell_pairs df) (List.product [0..<shape0 df] [0..<shape1 df])))"
  "distinct (map fst (build_index df))"
  "list_all (\<lambda>(k, vs). vs \<noteq> []) (build_index df)"
  using foldl_index_cell[of "[]" df "List.product [0..<shape0 df] [0..<shape1 df]"]
  by (simp_all add: build_index_def index_pairs_def)

lemma position_distinct:
  "distinct xs \<Longrightarrow> c < length xs \<Longrightarrow> length (takeWhile (\<lambda>l. l \<noteq> xs ! c) xs) = c"
proof (induction xs arbitrary: c)
  case Nil
  then show ?case by simp
next
  case (Cons x xs)
  show ?case
  proof (cases c)
    case 0
    then show ?thesis by simp
  next
    case (Suc d)
    with Cons.prems have "d < length xs" "x \<noteq> xs ! d" "distinct xs" by auto
    with Cons.IH[of d] Suc show ?thesis by simp
  qed
qed

lemma cell_address:
  assumes "distinct (columns df)" and "list_all label_ok (columns df)" and "c < shape1 df"
  shows "addr_ok (create_cell_address r c df)"
    and "grid_coordinate df (address_coordinate (create_cell_address r c df)) = (r, c)"
proof -
  let ?l = "columns df ! c"
  have c: "c < length (columns df)" using assms(3) by (simp add: shape1_def)
  then have "label_ok ?l" using assms(2) by (simp add: list_all_length)
  then obtain ch where l: "?l = [ch]" and ch: "ch \<noteq> 0x2C" "ch \<noteq> 0x3A"
    unfolding label_ok_def by (cases ?l) auto
  have a: "create_cell_address r c df = ch # dec (r + 1)"
    by (simp add: create_cell_address_def l)
  show "addr_ok (create_cell_address r c df)"
    unfolding a addr_ok_def using ch by (simp add: py_int_dec)
  have "address_coordinate (create_cell_address r c df) = (ch, int (r + 1))"
    unfolding a address_coordinate_def by (simp add: py_int_dec)
  moreover have "length (takeWhile (\<lambda>x. x \<noteq> [ch]) (columns df)) = c"
    using position_distinct[OF assms(1) c] l by simp
  ultimately show "grid_coordinate df (address_coordinate (create_cell_address r c df)) = (r, c)"
    by (simp add: grid_coordinate_def)
qed

lemma merge_all_reconstruct:
  assumes "list_all (\<lambda>(k, vs). list_all addr_ok vs \<and> vs \<noteq> []) index"
  shows "\<exists>result cells. merge_all index = Inr result \<and>
           map fst result = map fst index \<and>
           list_all (\<lambda>(v, s). s \<noteq> []) result \<and>
           reconstruct df result = Some cells \<and>
           mset cells =
             mset (map (\<lambda>(k, a). (grid_coordinate df (address_coordinate a), k)) (index_pairs index))"
  using assms
proof (induction index)
  case Nil
  then show ?case by (simp add: index_pairs_def)
next
  case (Cons e index)
  obtain k vs where e: "e = (k, vs)" by (cases e)
  from Cons.prems e have ok: "list_all addr_ok vs" and ne: "vs \<noteq> []"
    and rest: "list_all (\<lambda>(k, vs). list_all addr_ok vs \<and> vs \<noteq> []) index" by simp_all
  from merge_expand[OF ok] ne obtain s bs where
    s: "merge_cell_ranges vs = Inr s" "expand_ranges s = Some (map address_coordinate bs)"
      "mset bs = mset vs" "s \<noteq> []" by blast
  from Cons.IH[OF rest] obtain result cells where
    r: "merge_all index = Inr result" "map fst result = map fst index"
      "list_all (\<lambda>(v, s). s \<noteq> []) result" "reconstruct df result = Some cells"
      "mset cells =
         mset (map (\<lambda>(k, a). (grid_coordinate df (address_coordinate a), k)) (index_pairs index))"
    by blast
  let ?g = "\<lambda>a. (grid_coordinate df (address_coordinate a), k)"
  let ?here = "map (\<lambda>p. (grid_coordinate df p, k)) (map address_coordinate bs)"
  have "mset ?here = image_mset ?g (mset bs)" by (simp add: comp_def)
  also have "\<dots> = image_mset ?g (mset vs)" by (simp add: s(3))
  also have "\<dots> = mset (map (\<lambda>(k, a). (grid_coordinate df (address_coordinate a), k)) (map (Pair k) vs))"
    by (simp add: comp_def)
  finally have h: "mset ?here =
      mset (map (\<lambda>(k, a). (grid_coordinate df (address_coordinate a), k)) (map (Pair k) vs))" .
  have ip: "index_pairs (e # index) = map (Pair k) vs @ index_pairs index"
    by (simp add: index_pairs_def e)
  have "merge_all (e # index) = Inr ((k, s) # result)" using e s(1) r(1) by simp
  moreover have "reconstruct df ((k, s) # result) = Some (?here @ cells)"
    using s(2) r(4) by simp
  moreover have "mset (?here @ cells) =
      mset (map (\<lambda>(k, a). (grid_coordinate df (address_coordinate a), k)) (index_pairs (e # index)))"
    unfolding ip using h r(5) by simp
  ultimately show ?case using r(2,3) s(4) e by auto
qed

lemma index_pairs_member:
  "(k, vs) \<in> set index \<Longrightarrow> a \<in> set vs \<Longrightarrow> (k, a) \<in> set (index_pairs index)"
  by (auto simp: index_pairs_def)

lemma index_pairs_keys:
  assumes "list_all (\<lambda>(k, vs). vs \<noteq> []) index"
  shows "set (map fst index) = fst ` set (index_pairs index)"
proof
  show "set (map fst index) \<subseteq> fst ` set (index_pairs index)"
  proof
    fix k assume "k \<in> set (map fst index)"
    then obtain vs where kv: "(k, vs) \<in> set index" by auto
    with assms have "vs \<noteq> []" by (auto simp: list_all_iff)
    then obtain a where "a \<in> set vs" by (cases vs) auto
    with kv have "(k, a) \<in> set (index_pairs index)" by (rule index_pairs_member)
    then show "k \<in> fst ` set (index_pairs index)" by force
  qed
  show "fst ` set (index_pairs index) \<subseteq> set (map fst index)"
    by (force simp: index_pairs_def)
qed

lemma cell_pairs_member:
  "(v, a) \<in> set (cell_pairs df (r, c)) \<longleftrightarrow>
     iat df r c = Some v \<and> strip v \<noteq> [] \<and> a = create_cell_address r c df"
  by (auto simp: cell_pairs_def split: option.splits)

lemma filter_concat_fst:
  assumes "\<And>p. p \<in> set ps \<Longrightarrow> f p = [] \<or> (\<exists>v. f p = [(p, v)])"
  shows "map fst (concat (map f ps)) = filter (\<lambda>p. f p \<noteq> []) ps"
  using assms
proof (induction ps)
  case Nil
  then show ?case by simp
next
  case (Cons p ps)
  from Cons.prems[of p] have "f p = [] \<or> (\<exists>v. f p = [(p, v)])" by simp
  moreover have "map fst (concat (map f ps)) = filter (\<lambda>p. f p \<noteq> []) ps"
    using Cons.IH Cons.prems by simp
  ultimately show ?case by auto
qed

lemma cells_of_pairs:
  fixes df :: dataframe
  defines "P \<equiv> List.product [0..<shape0 df] [0..<shape1 df]"
  assumes "distinct (columns df)" and "list_all label_ok (columns df)"
  shows "\<exists>M. map (\<lambda>(k, a). (grid_coordinate df (address_coordinate a), k))
              (concat (map (cell_pairs df) P)) = M \<and>
           distinct (map fst M) \<and>
           set M = {((r, c), v). r < shape0 df \<and> c < shape1 df \<and> iat df r c = Some v \<and> strip v \<noteq> []}"
proof -
  let ?g = "\<lambda>(k, a). (grid_coordinate df (address_coordinate a), k)"
  define cm where "cm = (\<lambda>p. case p of (r, c) \<Rightarrow>
      (case iat df r c of None \<Rightarrow> []
       | Some v \<Rightarrow> if strip v \<noteq> [] then [((r, c), v)] else []))"
  have gL: "map ?g (cell_pairs df p) = cm p" if "p \<in> set P" for p
  proof -
    obtain r c where p: "p = (r, c)" by (cases p)
    with that have "c < shape1 df" by (simp add: P_def)
    from cell_address(2)[OF assms(2,3) this, of r] show ?thesis
      by (simp add: p cell_pairs_def cm_def split: option.splits)
  qed
  have "map (\<lambda>p. map ?g (cell_pairs df p)) P = map cm P"
    by (rule map_cong[OF refl]) (rule gL)
  then have m: "map ?g (concat (map (cell_pairs df) P)) = concat (map cm P)"
    by (simp only: map_concat map_map comp_def)
  have cmf: "cm p = [] \<or> (\<exists>v. cm p = [(p, v)])" for p
    by (cases p) (simp add: cm_def split: option.splits)
  have "map fst (concat (map cm P)) = filter (\<lambda>p. cm p \<noteq> []) P"
    by (rule filter_concat_fst) (rule cmf)
  moreover have "distinct P" by (simp add: P_def distinct_product)
  ultimately have d: "distinct (map fst (concat (map cm P)))" by simp
  have s: "set (concat (map cm P)) =
     {((r, c), v). r < shape0 df \<and> c < shape1 df \<and> iat df r c = Some v \<and> strip v \<noteq> []}"
    by (auto simp: cm_def P_def split: option.splits if_splits)
  from m d s show ?thesis by simp
qed

lemma keys_of_pairs:
  fixes df :: dataframe
  defines "P \<equiv> List.product [0..<shape0 df] [0..<shape1 df]"
  shows "fst ` set (concat (map (cell_pairs df) P)) =
     {v. \<exists>r c. r < shape0 df \<and> c < shape1 df \<and> iat df r c = Some v \<and> strip v \<noteq> []}"
proof (rule set_eqI, rule iffI)
  fix v assume "v \<in> fst ` set (concat (map (cell_pairs df) P))"
  then obtain p where p: "p \<in> set (concat (map (cell_pairs df) P))" and v: "v = fst p"
    by (rule imageE)
  from p obtain q where q: "q \<in> set P" "p \<in> set (cell_pairs df q)" by auto
  obtain r c where rc: "q = (r, c)" by (cases q)
  obtain a where a: "p = (v, a)" using v by (cases p) simp
  from q(2) have "iat df r c = Some v \<and> strip v \<noteq> []"
    unfolding rc a cell_pairs_member by simp
  moreover from q(1) have "r < shape0 df \<and> c < shape1 df" by (simp add: rc P_def)
  ultimately show "v \<in> {v. \<exists>r c. r < shape0 df \<and> c < shape1 df \<and> iat df r c = Some v \<and> strip v \<noteq> []}"
    by blast
next
  fix v assume "v \<in> {v. \<exists>r c. r < shape0 df \<and> c < shape1 df \<and> iat df r c = Some v \<and> strip v \<noteq> []}"
  then obtain r c where rc: "r < shape0 df" "c < shape1 df" "iat df r c = Some v" "strip v \<noteq> []"
    by blast
  have "(r, c) \<in> set P" using rc(1,2) by (simp add: P_def)
  moreover have "(v, create_cell_address r c df) \<in> set (cell_pairs df (r, c))"
    unfolding cell_pairs_member using rc(3,4) by simp
  ultimately have "(v, create_cell_address r c df) \<in> set (concat (map (cell_pairs df) P))"
    by (simp only: set_concat set_map) blast
  then show "v \<in> fst ` set (concat (map (cell_pairs df) P))"
    by (rule rev_image_eqI) simp
qed

lemma pairs_addr_ok:
  fixes df :: dataframe
  defines "P \<equiv> List.product [0..<shape0 df] [0..<shape1 df]"
  assumes "distinct (columns df)" and "list_all label_ok (columns df)"
    and "(v, a) \<in> set (concat (map (cell_pairs df) P))"
  shows "addr_ok a"
proof -
  from assms(4) obtain q where q: "q \<in> set P" "(v, a) \<in> set (cell_pairs df q)" by auto
  obtain r c where rc: "q = (r, c)" by (cases q)
  from q(2) have a: "a = create_cell_address r c df" unfolding rc cell_pairs_member by simp
  from q(1) have "c < shape1 df" by (simp add: rc P_def)
  from cell_address(1)[OF assms(2,3) this] show ?thesis unfolding a .
qed

lemmas index_eval =
  invert_index_with_ranges_def build_index_def index_cell_def create_cell_address_def
  iat_def shape0_def shape1_def strip_def dec.simps
  upt_rec[of _ "numeral _"] upt_rec[of 0 "Suc _"] upt_rec[of "Suc _" "Suc _"]

lemma index_example_value:
  "invert_index_with_ranges index_example =
     Inr [(str ''Q1'', str ''A1:A2''), (str ''Q2'', str ''A3'')]"
  by (simp add: index_example_def index_eval merge_eval)

lemma two_letter_value: "invert_index_with_ranges two_letter_example = Inl ValueError"
  by (simp add: two_letter_example_def index_eval merge_eval)

lemma duplicate_label_value:
  "invert_index_with_ranges duplicate_label_example = Inr [(str ''x'', str ''A1,A1'')]"
  by (simp add: duplicate_label_example_def index_eval merge_eval)

lemma duplicate_label_cells:
  "reconstruct duplicate_label_example [(str ''x'', str ''A1,A1'')] =
     Some [((0, 0), str ''x''), ((0, 0), str ''x'')]"
  by (simp add: duplicate_label_example_def expand_ranges_def decode_range_def
        decode_address_def grid_coordinate_def merge_eval upto.simps)

lemma comma_label_value:
  "invert_index_with_ranges comma_label_example = Inr [(str ''x'', str '',1'')]"
  by (simp add: comma_label_example_def index_eval merge_eval)

lemma comma_label_cells:
  "reconstruct comma_label_example [(str ''x'', str '',1'')] = None"
  by (simp add: comma_label_example_def expand_ranges_def decode_range_def
        decode_address_def grid_coordinate_def merge_eval upto.simps)

subsection \<open>Losslessness\<close>

text \<open>
  Claim C1, as the code has it. For every frame whose column labels are pairwise distinct
  single characters other than the comma and the colon, \<open>invert_index_with_ranges\<close>
  returns an index with one entry per value and no empty entry; its keys are exactly the
  values of the cells that are neither missing nor blank; expanding every range of every
  entry and giving the coordinates the value of the entry yields each cell that is neither
  missing nor blank, with its literal value, and yields no coordinate twice, so the
  entries cover pairwise disjoint sets whose union is the set of those cells.
\<close>

theorem index_lossless:
  assumes "distinct (columns df)" and "list_all label_ok (columns df)"
  shows "\<exists>index cells. invert_index_with_ranges df = Inr index \<and>
     distinct (map fst index) \<and>
     list_all (\<lambda>(v, s). s \<noteq> []) index \<and>
     set (map fst index) =
       {v. \<exists>r c. r < shape0 df \<and> c < shape1 df \<and> iat df r c = Some v \<and> strip v \<noteq> []} \<and>
     reconstruct df index = Some cells \<and>
     distinct (map fst cells) \<and>
     set cells =
       {((r, c), v). r < shape0 df \<and> c < shape1 df \<and> iat df r c = Some v \<and> strip v \<noteq> []}"
proof -
  define L where "L = concat (map (cell_pairs df) (List.product [0..<shape0 df] [0..<shape1 df]))"
  define idx where "idx = build_index df"
  let ?g = "\<lambda>(k, a). (grid_coordinate df (address_coordinate a), k)"
  have mL: "mset (index_pairs idx) = mset L"
    unfolding idx_def L_def by (rule build_index_inv(1))
  have dk: "distinct (map fst idx)" unfolding idx_def by (rule build_index_inv(2))
  have nn: "list_all (\<lambda>(k, vs). vs \<noteq> []) idx" unfolding idx_def by (rule build_index_inv(3))
  have sL: "set (index_pairs idx) = set L" using mL by (rule mset_eq_setD)
  have ok: "list_all (\<lambda>(k, vs). list_all addr_ok vs \<and> vs \<noteq> []) idx"
    unfolding list_all_iff
  proof (intro ballI, clarify, intro conjI ballI)
    fix k vs a assume kv: "(k, vs) \<in> set idx" and a: "a \<in> set vs"
    from index_pairs_member[OF kv a] have "(k, a) \<in> set L" unfolding sL .
    then show "addr_ok a" unfolding L_def by (rule pairs_addr_ok[OF assms])
  next
    fix k vs assume "(k, vs) \<in> set idx"
    with nn show "vs \<noteq> []" by (auto simp: list_all_iff)
  qed
  from merge_all_reconstruct[OF ok, of df] obtain result cells where
    r: "merge_all idx = Inr result" "map fst result = map fst idx"
      "list_all (\<lambda>(v, s). s \<noteq> []) result" "reconstruct df result = Some cells"
      "mset cells = mset (map ?g (index_pairs idx))"
    by blast
  from cells_of_pairs[OF assms] obtain M where
    M: "map ?g L = M" "distinct (map fst M)"
      "set M = {((r, c), v). r < shape0 df \<and> c < shape1 df \<and> iat df r c = Some v \<and> strip v \<noteq> []}"
    unfolding L_def by blast
  have "mset (map ?g (index_pairs idx)) = image_mset ?g (mset (index_pairs idx))" by simp
  also have "\<dots> = image_mset ?g (mset L)" by (simp only: mL)
  also have "\<dots> = mset M" unfolding M(1)[symmetric] by simp
  finally have mc: "mset cells = mset M" using r(5) by simp
  have "mset (map fst cells) = mset (map fst M)" using mc by (metis mset_map)
  then have dc: "distinct (map fst cells)" using M(2) by (metis mset_eq_imp_distinct_iff)
  have sc: "set cells =
     {((r, c), v). r < shape0 df \<and> c < shape1 df \<and> iat df r c = Some v \<and> strip v \<noteq> []}"
    using mset_eq_setD[OF mc] M(3) by simp
  have "set (map fst result) = set (map fst idx)" by (simp only: r(2))
  also have "\<dots> = fst ` set (index_pairs idx)" by (rule index_pairs_keys[OF nn])
  also have "\<dots> = fst ` set L" by (simp only: sL)
  also have "\<dots> = {v. \<exists>r c. r < shape0 df \<and> c < shape1 df \<and> iat df r c = Some v \<and> strip v \<noteq> []}"
    unfolding L_def by (rule keys_of_pairs)
  finally have keys: "set (map fst result) =
     {v. \<exists>r c. r < shape0 df \<and> c < shape1 df \<and> iat df r c = Some v \<and> strip v \<noteq> []}" .
  have inv: "invert_index_with_ranges df = Inr result"
    by (simp add: invert_index_with_ranges_def r(1) flip: idx_def)
  have dr: "distinct (map fst result)" using r(2) dk by simp
  from inv dr r(3) keys r(4) dc sc show ?thesis by (intro exI conjI)
qed

theorem index_lossless_witness:
  "distinct (columns index_example) \<and> list_all label_ok (columns index_example) \<and>
   (\<exists>index cells. invert_index_with_ranges index_example = Inr index \<and>
     index = [(str ''Q1'', str ''A1:A2''), (str ''Q2'', str ''A3'')] \<and>
     reconstruct index_example index = Some cells \<and>
     distinct (map fst cells) \<and>
     set cells =
       {((r, c), v). r < shape0 index_example \<and> c < shape1 index_example \<and>
          iat index_example r c = Some v \<and> strip v \<noteq> []})"
proof -
  have h: "distinct (columns index_example)" "list_all label_ok (columns index_example)"
    by (simp_all add: index_example_def label_ok_def str_def)
  from index_lossless[OF h] index_example_value h show ?thesis by auto
qed

text \<open>
  Without those conditions on the labels the claim fails. A label of two letters makes
  \<open>int(addr[1:])\<close> raise \<open>ValueError\<close>; two columns with the same label give an
  index whose ranges name the cell of the first column twice and the cell of the second
  never; a comma as label gives a text that cannot be split at commas.
\<close>

theorem index_lossless_counterexample:
  "invert_index_with_ranges two_letter_example = Inl ValueError \<and>
   invert_index_with_ranges duplicate_label_example = Inr [(str ''x'', str ''A1,A1'')] \<and>
   reconstruct duplicate_label_example [(str ''x'', str ''A1,A1'')] =
     Some [((0, 0), str ''x''), ((0, 0), str ''x'')] \<and>
   iat duplicate_label_example 0 1 = Some (str ''x'') \<and>
   invert_index_with_ranges comma_label_example = Inr [(str ''x'', str '',1'')] \<and>
   reconstruct comma_label_example [(str ''x'', str '',1'')] = None"
  using two_letter_value duplicate_label_value duplicate_label_cells
    comma_label_value comma_label_cells
  by (simp add: duplicate_label_example_def iat_def)

subsection \<open>Runs\<close>

text \<open>
  The sweep is followed a second time, now with the runs themselves: after the runs
  \<open>finished\<close> and with the run \<open>current\<close> open, the state is \<open>runs_state finished current\<close>,
  and an address either extends the open run or closes it and opens the next.
\<close>

lemma readable_parts:
  assumes "readable a"
  shows "a \<noteq> []" and "py_int (tl a) = Inr (snd (address_coordinate a))"
    and "truthy (Some a)"
  using assms by (auto simp: readable_def address_coordinate_def truthy_def split: sum.splits)

lemma addr_ok_readable: "addr_ok a \<Longrightarrow> readable a"
  by (simp add: addr_ok_def readable_def)

lemma parse_addresses_readable:
  "list_all readable as \<Longrightarrow> parse_addresses as = Inr (map parsed_of as)"
proof (induction as)
  case Nil
  then show ?case by simp
next
  case (Cons a as)
  from Cons.prems have a: "readable a" and as: "list_all readable as" by simp_all
  obtain c t where ct: "a = c # t" using readable_parts(1)[OF a] by (cases a) auto
  have "py_int t = Inr (snd (address_coordinate a))" using readable_parts(2)[OF a] ct by simp
  with Cons.IH[OF as] ct show ?case by (simp add: parsed_of_def)
qed

lemma adjacent_iff:
  "adjacent a b \<longleftrightarrow>
     hd a = hd b \<and> snd (address_coordinate b) = snd (address_coordinate a) + 1"
  by (simp add: adjacent_def address_coordinate_def)

lemma run_rows:
  "successively adjacent (x # r) \<Longrightarrow>
     snd (address_coordinate (last (x # r))) = snd (address_coordinate x) + int (length r)"
proof (induction r arbitrary: x)
  case Nil
  then show ?case by simp
next
  case (Cons y ys)
  from Cons.prems have "adjacent x y" and "successively adjacent (y # ys)" by simp_all
  with Cons.IH[of y] show ?case by (simp add: adjacent_iff)
qed

lemma run_text_eq:
  assumes "r \<noteq> []" and "successively adjacent r"
  shows "(if hd r = last r then hd r else hd r @ [0x3A] @ last r) = run_text r"
proof -
  obtain x ys where r: "r = x # ys" using assms(1) by (cases r) auto
  show ?thesis
  proof (cases ys)
    case Nil
    with r show ?thesis by (simp add: run_text_def)
  next
    case (Cons y zs)
    from run_rows[of x ys] assms(2) r
    have "snd (address_coordinate (last r)) = snd (address_coordinate x) + int (length ys)"
      by simp
    with Cons have "snd (address_coordinate (last r)) \<noteq> snd (address_coordinate (hd r))"
      using r by simp
    then have "hd r \<noteq> last r" by metis
    with r Cons show ?thesis by (simp add: run_text_def)
  qed
qed

lemma append_range_runs:
  assumes "r \<noteq> []" and "successively adjacent r"
  shows "append_range (runs_state f r) = map run_text (f @ [r])"
proof -
  have "range_text (runs_state f r) = run_text r"
    using run_text_eq[OF assms]
    by (auto simp: range_text_def runs_state_def format_value_def split: if_splits)
  then show ?thesis by (simp add: append_range_def runs_state_def)
qed

lemma finish_range_runs:
  assumes "r \<noteq> []" and "successively adjacent r" and "readable (hd r)"
  shows "finish_range (runs_state f r) = map run_text (f @ [r])"
proof -
  have "truthy (current_range_start (runs_state f r))"
    using readable_parts(3)[OF assms(3)] by (simp add: runs_state_def)
  then show ?thesis using append_range_runs[OF assms(1,2)] by (simp add: finish_range_def)
qed

lemma sweep_step_runs:
  assumes "r \<noteq> []" and "successively adjacent r"
    and "readable (hd r)" and "readable (last r)"
  shows "sweep_step (runs_state f r) (parsed_of a) =
           Inr (if adjacent (last r) a then runs_state f (r @ [a])
                else runs_state (f @ [r]) [a])"
proof (cases "hd (last r) = hd a")
  case False
  then have "\<not> adjacent (last r) a" by (simp add: adjacent_iff)
  moreover have "sweep_step (runs_state f r) (parsed_of a) =
      Inr \<lparr> ranges = finish_range (runs_state f r), current_range_start = Some a,
            current_range_end = Some a, current_col = Some (hd a) \<rparr>"
    using False by (simp add: sweep_step_def parsed_of_def runs_state_def)
  ultimately show ?thesis
    using finish_range_runs[OF assms(1,2,3)] by (simp add: runs_state_def)
next
  case True
  have prev: "py_int (tl (last r)) = Inr (snd (address_coordinate (last r)))"
    by (rule readable_parts(2)[OF assms(4)])
  show ?thesis
  proof (cases "snd (address_coordinate a) = snd (address_coordinate (last r)) + 1")
    case next_row: True
    then have "adjacent (last r) a" using True by (simp add: adjacent_iff)
    moreover have "sweep_step (runs_state f r) (parsed_of a) =
        Inr (runs_state f r \<lparr> current_range_end := Some a \<rparr>)"
      using True prev next_row by (simp add: sweep_step_def parsed_of_def runs_state_def)
    ultimately show ?thesis using assms(1) True by (simp add: runs_state_def)
  next
    case other_row: False
    then have "\<not> adjacent (last r) a" by (simp add: adjacent_iff)
    moreover have "sweep_step (runs_state f r) (parsed_of a) =
        Inr \<lparr> ranges = append_range (runs_state f r), current_range_start = Some a,
              current_range_end = Some a, current_col = Some (hd a) \<rparr>"
      using True prev other_row by (simp add: sweep_step_def parsed_of_def runs_state_def)
    ultimately show ?thesis
      using append_range_runs[OF assms(1,2)] by (simp add: runs_state_def)
  qed
qed

lemma maximal_runs_extend:
  assumes "maximal_runs (f @ [r])" and "adjacent (last r) a"
  shows "maximal_runs (f @ [r @ [a]])"
  using assms by (auto simp: maximal_runs_def successively_append_iff)

lemma maximal_runs_open:
  assumes "maximal_runs (f @ [r])" and "\<not> adjacent (last r) a"
  shows "maximal_runs ((f @ [r]) @ [[a]])"
proof -
  let ?P = "\<lambda>r1 r2. \<not> adjacent (last r1) (hd r2)"
  have "successively ?P ((f @ [r]) @ [[a]])"
    unfolding successively_append_iff[of ?P "f @ [r]" "[[a]]"]
    using assms by (simp add: maximal_runs_def)
  moreover have "list_all (\<lambda>r. r \<noteq> [] \<and> successively adjacent r) ((f @ [r]) @ [[a]])"
    using assms(1) by (simp add: maximal_runs_def)
  ultimately show ?thesis unfolding maximal_runs_def by blast
qed

lemma sweep_runs:
  assumes "list_all readable as" and "list_all readable r" and "maximal_runs (f @ [r])"
  shows "\<exists>f' r'. sweep (runs_state f r) (map parsed_of as) = Inr (runs_state f' r') \<and>
           list_all readable r' \<and> maximal_runs (f' @ [r']) \<and>
           concat (f' @ [r']) = concat (f @ [r]) @ as"
  using assms
proof (induction as arbitrary: f r)
  case Nil
  then show ?case by auto
next
  case (Cons a as)
  from Cons.prems have a: "readable a" and as: "list_all readable as" by simp_all
  from Cons.prems(3) have r: "r \<noteq> []" "successively adjacent r"
    by (simp_all add: maximal_runs_def)
  from Cons.prems(2) r(1) have ends: "readable (hd r)" "readable (last r)"
    by (simp_all add: list_all_iff)
  note step = sweep_step_runs[OF r ends, of f a]
  show ?case
  proof (cases "adjacent (last r) a")
    case True
    have "list_all readable (r @ [a])" using Cons.prems(2) a by simp
    from Cons.IH[OF as this maximal_runs_extend[OF Cons.prems(3) True]]
    show ?thesis using step True by simp
  next
    case False
    have "list_all readable [a]" using a by simp
    from Cons.IH[OF as this maximal_runs_open[OF Cons.prems(3) False]]
    show ?thesis using step False by simp
  qed
qed

lemma sweep_first:
  assumes "readable a"
  shows "sweep_step \<lparr> ranges = [], current_range_start = None,
                      current_range_end = None, current_col = None \<rparr> (parsed_of a) =
           Inr (runs_state [] [a])"
  by (simp add: sweep_step_def parsed_of_def finish_range_def truthy_def runs_state_def)

lemma merge_maximal_runs:
  assumes "list_all readable as"
  shows "\<exists>bs runs. map parsed_of bs = sort (map parsed_of as) \<and> concat runs = bs \<and>
           maximal_runs runs \<and>
           merge_cell_ranges as = Inr (join 0x2C (map run_text runs))"
proof (cases "as = []")
  case True
  have "map parsed_of [] = sort (map parsed_of as) \<and> concat [] = ([] :: pystr list) \<and>
      maximal_runs [] \<and> merge_cell_ranges as = Inr (join 0x2C (map run_text []))"
    using True by (simp add: merge_cell_ranges_def maximal_runs_def)
  then show ?thesis by blast
next
  case False
  from sort_parsed obtain bs where
    bs: "sort (map parsed_of as) = map parsed_of bs" "mset bs = mset as" by blast
  have "set bs = set as" using bs(2) by (metis set_mset_mset)
  with assms have ok: "list_all readable bs" by (simp add: list_all_iff)
  have "bs \<noteq> []" using bs(2) False by auto
  then obtain b rest where br: "bs = b # rest" by (cases bs) auto
  with ok have b: "readable b" and rest: "list_all readable rest" by simp_all
  have "list_all readable [b]" using b by simp
  moreover have "maximal_runs ([] @ [[b]])" by (simp add: maximal_runs_def)
  ultimately obtain f r where
    fr: "sweep (runs_state [] [b]) (map parsed_of rest) = Inr (runs_state f r)"
      "list_all readable r" "maximal_runs (f @ [r])" "concat (f @ [r]) = concat ([] @ [[b]]) @ rest"
    using sweep_runs[OF rest] by blast
  from fr(3) have r: "r \<noteq> []" "successively adjacent r" by (simp_all add: maximal_runs_def)
  with fr(2) have "readable (hd r)" by (simp add: list_all_iff)
  note fin = finish_range_runs[OF r this, of f]
  have "sweep \<lparr> ranges = [], current_range_start = None,
                current_range_end = None, current_col = None \<rparr> (map parsed_of bs) =
      Inr (runs_state f r)"
    using sweep_first[OF b] fr(1) br by simp
  then have "merge_cell_ranges as = Inr (join 0x2C (map run_text (f @ [r])))"
    using False parse_addresses_readable[OF assms] bs(1) fin by (simp add: merge_cell_ranges_def)
  moreover have "concat (f @ [r]) = bs" using fr(4) br by simp
  ultimately show ?thesis using bs(1) fr(3) by metis
qed

lemma merge_permutation:
  assumes "list_all readable as" and "mset bs = mset as"
  shows "merge_cell_ranges bs = merge_cell_ranges as"
proof -
  have "set bs = set as" using assms(2) by (metis set_mset_mset)
  with assms(1) have ok: "list_all readable bs" by (simp add: list_all_iff)
  have "mset (map parsed_of bs) = mset (map parsed_of as)" using assms(2) by simp
  then have "sort (map parsed_of bs) = sort (map parsed_of as)"
    by (metis sorted_list_of_multiset_mset)
  moreover have "bs = [] \<longleftrightarrow> as = []" using assms(2) by (metis mset_zero_iff)
  ultimately show ?thesis
    using parse_addresses_readable[OF assms(1)] parse_addresses_readable[OF ok]
    by (simp add: merge_cell_ranges_def)
qed

lemma merge_numeric:
  "merge_cell_ranges (map str [''A10'', ''A9'', ''A11'']) = Inr (str ''A9:A11'')"
  by (simp add: merge_eval)

lemma readable_examples:
  "list_all readable (map str [''A1'', ''A2'', ''A3'', ''A5''])"
  "list_all readable (map str [''A1'', ''B1'', ''A2''])"
  "list_all readable (map str [''A10'', ''A9'', ''A11''])"
  by (simp_all add: readable_def merge_eval)

text \<open>
  Claim C2, for addresses the function can read. For every list of readable addresses
  \<open>merge_cell_ranges\<close> returns the texts, joined by commas, of the maximal runs of the
  addresses taken in the order of \<open>(column, row, address)\<close>: the runs follow one another
  in that order, inside a run every address lies in the column of the one before it, one
  row further, and the first address of a run does not lie in the column of the last
  address of the run before it, one row further. So two addresses that follow one another
  in the sorted sweep are in the same run iff they lie in the same column and their rows
  are consecutive. The result does not depend on the order of the input: on
  \<open>A1, A2, A3, A5\<close> in any order it is \<open>A1:A3,A5\<close>, and on \<open>A1, B1, A2\<close> in any order it
  is \<open>A1:A2,B1\<close>.
\<close>

theorem merge_runs:
  assumes "list_all readable addresses"
  shows "(\<exists>sorted_addresses runs.
            map parsed_of sorted_addresses = sort (map parsed_of addresses) \<and>
            concat runs = sorted_addresses \<and> maximal_runs runs \<and>
            merge_cell_ranges addresses = Inr (join 0x2C (map run_text runs))) \<and>
         (\<forall>other. mset other = mset addresses \<longrightarrow>
            merge_cell_ranges other = merge_cell_ranges addresses) \<and>
         (\<forall>as. mset as = mset (map str [''A1'', ''A2'', ''A3'', ''A5'']) \<longrightarrow>
            merge_cell_ranges as = Inr (str ''A1:A3,A5'')) \<and>
         (\<forall>as. mset as = mset (map str [''A1'', ''B1'', ''A2'']) \<longrightarrow>
            merge_cell_ranges as = Inr (str ''A1:A2,B1''))"
proof -
  have "merge_cell_ranges as = Inr (str ''A1:A3,A5'')"
    if "mset as = mset (map str [''A1'', ''A2'', ''A3'', ''A5''])" for as
    using merge_permutation[OF readable_examples(1) that] merge_gap by simp
  moreover have "merge_cell_ranges as = Inr (str ''A1:A2,B1'')"
    if "mset as = mset (map str [''A1'', ''B1'', ''A2''])" for as
    using merge_permutation[OF readable_examples(2) that] merge_columns by simp
  moreover have "merge_cell_ranges other = merge_cell_ranges addresses"
    if "mset other = mset addresses" for other
    using merge_permutation[OF assms that] .
  ultimately show ?thesis using merge_maximal_runs[OF assms] by blast
qed

theorem merge_runs_witness:
  "list_all readable (map str [''A10'', ''A9'', ''A11'']) \<and>
   (\<exists>sorted_addresses runs.
      map parsed_of sorted_addresses = sort (map parsed_of (map str [''A10'', ''A9'', ''A11''])) \<and>
      concat runs = sorted_addresses \<and> maximal_runs runs \<and>
      merge_cell_ranges (map str [''A10'', ''A9'', ''A11'']) =
        Inr (join 0x2C (map run_text runs))) \<and>
   merge_cell_ranges (map str [''A10'', ''A9'', ''A11'']) = Inr (str ''A9:A11'') \<and>
   mset (map str [''A9'', ''A11'', ''A10'']) = mset (map str [''A10'', ''A9'', ''A11'']) \<and>
   merge_cell_ranges (map str [''A9'', ''A11'', ''A10'']) =
     merge_cell_ranges (map str [''A10'', ''A9'', ''A11'']) \<and>
   mset (map str [''A5'', ''A3'', ''A1'', ''A2'']) = mset (map str [''A1'', ''A2'', ''A3'', ''A5'']) \<and>
   merge_cell_ranges (map str [''A5'', ''A3'', ''A1'', ''A2'']) = Inr (str ''A1:A3,A5'') \<and>
   mset (map str [''B1'', ''A2'', ''A1'']) = mset (map str [''A1'', ''B1'', ''A2'']) \<and>
   merge_cell_ranges (map str [''B1'', ''A2'', ''A1'']) = Inr (str ''A1:A2,B1'')"
proof -
  have m: "mset (map str [''A9'', ''A11'', ''A10'']) = mset (map str [''A10'', ''A9'', ''A11''])"
    "mset (map str [''A5'', ''A3'', ''A1'', ''A2'']) = mset (map str [''A1'', ''A2'', ''A3'', ''A5''])"
    "mset (map str [''B1'', ''A2'', ''A1'']) = mset (map str [''A1'', ''B1'', ''A2''])"
    by (simp_all add: add_mset_commute)
  from merge_runs[OF readable_examples(3)] m readable_examples(3) merge_numeric
  show ?thesis by blast
qed

text \<open>
  The addresses \<open>AA1\<close> and \<open>AA2\<close> lie in one column, in consecutive rows, and are not
  merged: the function takes \<open>A\<close> for the column and fails to read \<open>A1\<close> as a row.
\<close>

theorem merge_runs_counterexample:
  "merge_cell_ranges (map str [''AA1'', ''AA2'']) = Inl ValueError \<and>
   py_int (tl (str ''AA1'')) = Inl ValueError"
  by (simp add: merge_eval)

subsection \<open>Duplicates\<close>





end
